theory Spec2Isabelle
  imports Complex_Main "HOL-Library.Stream"
begin

section \<open>Snake game: a shallow embedding of snake_game.py\<close>

text \<open>
  The game logic of \<^verbatim>\<open>snake_game.py\<close> as HOL functions. The local variables of
  \<^verbatim>\<open>game_loop\<close> form the record \<open>state\<close>; what the program takes from outside
  (the random source, the clock, the keyboard events, the file
  \<^verbatim>\<open>highscore.txt\<close> and the interpreter it runs on) forms the record \<open>world\<close>,
  which is passed along and returned updated. Drawing (\<^verbatim>\<open>draw_*\<close>, \<^verbatim>\<open>pause_screen\<close>,
  \<^verbatim>\<open>clock.tick\<close>) changes neither and is left out.

  A computation that may raise and may run forever has the type
  \<open>(error + 'a) option\<close>: \<open>None\<close> is a loop that never returns,
  \<open>Some (Inl e)\<close> an exception that leaves \<^verbatim>\<open>game_loop\<close>, \<open>Some (Inr x)\<close> a result.
\<close>

subsection \<open>Constants\<close>

definition SCREEN_WIDTH :: int where "SCREEN_WIDTH = 800"
definition SCREEN_HEIGHT :: int where "SCREEN_HEIGHT = 600"
definition GRID_SIZE :: int where "GRID_SIZE = 20"
definition GRID_WIDTH :: int where "GRID_WIDTH = SCREEN_WIDTH div GRID_SIZE"
definition GRID_HEIGHT :: int where "GRID_HEIGHT = SCREEN_HEIGHT div GRID_SIZE"

definition SNAKE_SPEED_NORMAL :: int where "SNAKE_SPEED_NORMAL = 10"
definition SNAKE_SPEED_BOOST :: int where "SNAKE_SPEED_BOOST = 20"

definition POWERUP_DURATION :: real where "POWERUP_DURATION = 5"
definition POWERUP_SPAWN_INTERVAL :: real where "POWERUP_SPAWN_INTERVAL = 20"

subsection \<open>Data\<close>

type_synonym cell = "int \<times> int"

text \<open>The variable \<^verbatim>\<open>direction\<close> only ever holds one of four string literals.\<close>

datatype direction = UP | DOWN | LEFT | RIGHT

text \<open>The keys and events the program tells apart; every other one is \<open>K_OTHER\<close>, \<open>OTHER_EVENT\<close>.\<close>

datatype key = K_SPACE | K_UP | K_DOWN | K_LEFT | K_RIGHT | K_r | K_q | K_OTHER

datatype event = QUIT | KEYDOWN key | OTHER_EVENT

text \<open>The two strings \<^verbatim>\<open>game_over_screen\<close> returns.\<close>

datatype action = ACTION_QUIT | ACTION_RESTART

text \<open>The exceptions that can leave a function of the program.\<close>

datatype error = IOError | ValueError | IndexError

text \<open>A Python string is a list of Unicode code points.\<close>

type_synonym ustring = "nat list"

text \<open>
  The file \<^verbatim>\<open>highscore.txt\<close>: absent, present but not readable as text, or holding
  the text that \<^verbatim>\<open>f.read()\<close> returns; and whether opening it for writing and
  writing to it succeeds.
\<close>

datatype file_state = Missing | Unreadable | Content ustring

record hs_store =
  hs_file :: file_state
  writable :: bool

text \<open>
  What \<^verbatim>\<open>int\<close> and \<^verbatim>\<open>str\<close> take from the interpreter they run on: the limit on
  the digits of a converted integer (\<^verbatim>\<open>sys.get_int_max_str_digits()\<close>: 0 for none,
  4300 unless set, never between 1 and 639), and the Unicode tables of its version,
  which say which code points from 127 on are white space and which are decimal
  digits of which value.
\<close>

record interpreter =
  max_str_digits :: nat
  unicode_space :: "nat \<Rightarrow> bool"
  unicode_decimal :: "nat \<Rightarrow> nat option"

record world =
  rng :: "int stream"
  clock :: "real stream"
  events :: "event list stream"
  store :: hs_store
  python :: interpreter

record state =
  high_score :: int
  snake_body :: "cell list"
  food_pos :: cell
  powerup_pos :: "cell option"
  direction :: direction
  score :: int
  paused :: bool
  speed :: int
  powerup_active :: bool
  powerup_timer :: real
  last_powerup_spawn :: real
  running :: bool

text \<open>
  How a part of the loop body ends: with \<^verbatim>\<open>return\<close> from \<^verbatim>\<open>game_loop\<close>, or by
  going on with the variables as they are. Where the program is left, \<open>Exit\<close> holds
  what it leaves behind.
\<close>

datatype ('x, 'a) ctl = Exit 'x | Continue 'a

subsection \<open>The library functions the program calls\<close>

text \<open>
  \<^verbatim>\<open>random.randint(lo, hi)\<close>: the random source is a stream of integers; the next one
  is mapped into the closed range from \<open>lo\<close> to \<open>hi\<close>, and every value of the range
  can come out.
\<close>

definition randint :: "int \<Rightarrow> int \<Rightarrow> int stream \<Rightarrow> int \<times> int stream" where
  "randint lo hi r = (lo + shd r mod (hi - lo + 1), stl r)"

text \<open>\<^verbatim>\<open>time.time()\<close>: the next reading of the clock.\<close>

definition time_time :: "world \<Rightarrow> real \<times> world" where
  "time_time w = (shd (clock w), w\<lparr>clock := stl (clock w)\<rparr>)"

text \<open>
  \<^verbatim>\<open>int(s)\<close> on a string, as CPython computes it. A string with a code point
  beyond ASCII is first brought to ASCII: code points below 127 stay, white space
  becomes a blank, a decimal digit becomes its ASCII digit, and anything else a question
  mark, on which the conversion fails. Then the ASCII white space around the number is
  dropped, one sign may come first, then decimal digits, where a single underscore may
  stand between two digits. More than 640 digits are checked against the interpreter's
  limit. Anything else raises \<^verbatim>\<open>ValueError\<close>.
\<close>

definition to_ascii :: "interpreter \<Rightarrow> ustring \<Rightarrow> ustring" where
  "to_ascii ip s =
     (if list_all (\<lambda>c. c < 128) s then s
      else map (\<lambda>c. if c < 127 then c
                     else if unicode_space ip c then 32
                     else (case unicode_decimal ip c of Some d \<Rightarrow> 48 + d | None \<Rightarrow> 63)) s)"

definition is_space :: "nat \<Rightarrow> bool" where
  "is_space c = (c \<in> {32, 9, 10, 11, 12, 13})"

definition is_digit :: "nat \<Rightarrow> bool" where
  "is_digit c = (48 \<le> c \<and> c \<le> 57)"

definition digit_val :: "nat \<Rightarrow> nat" where
  "digit_val c = c - 48"

definition strip :: "ustring \<Rightarrow> ustring" where
  "strip s = rev (dropWhile is_space (rev (dropWhile is_space s)))"

fun py_digits :: "bool \<Rightarrow> ustring \<Rightarrow> nat list option" where
  "py_digits prev [] = (if prev then Some [] else None)"
| "py_digits prev (c # cs) =
     (if is_digit c then map_option (\<lambda>ds. digit_val c # ds) (py_digits True cs)
      else if c = 95 \<and> prev then py_digits False cs
      else None)"

definition digits_value :: "nat list \<Rightarrow> nat" where
  "digits_value ds = foldl (\<lambda>a d. 10 * a + d) 0 ds"

definition over_limit :: "interpreter \<Rightarrow> nat \<Rightarrow> bool" where
  "over_limit ip k = (k > 640 \<and> max_str_digits ip > 0 \<and> k > max_str_digits ip)"

definition py_int :: "interpreter \<Rightarrow> ustring \<Rightarrow> error + int" where
  "py_int ip s =
     (case strip (to_ascii ip s) of
        [] \<Rightarrow> Inl ValueError
      | c # cs \<Rightarrow>
          (case py_digits False (if c = 45 \<or> c = 43 then cs else c # cs) of
             None \<Rightarrow> Inl ValueError
           | Some ds \<Rightarrow>
               if over_limit ip (length ds) then Inl ValueError
               else Inr (if c = 45 then - int (digits_value ds) else int (digits_value ds))))"

text \<open>
  \<^verbatim>\<open>str(n)\<close> on an integer: its decimal digits, after a minus sign when negative;
  \<^verbatim>\<open>ValueError\<close> when the digits are more than the limit.
\<close>

fun digits_of :: "nat \<Rightarrow> ustring" where
  "digits_of n = (if n < 10 then [48 + n] else digits_of (n div 10) @ [48 + n mod 10])"

declare digits_of.simps [simp del]

definition py_str :: "interpreter \<Rightarrow> int \<Rightarrow> error + ustring" where
  "py_str ip n =
     (if over_limit ip (length (digits_of (nat \<bar>n\<bar>))) then Inl ValueError
      else Inr (if n < 0 then 45 # digits_of (nat \<bar>n\<bar>) else digits_of (nat \<bar>n\<bar>)))"

subsection \<open>High score file\<close>

text \<open>
  \<^verbatim>\<open>load_high_score\<close>: \<^verbatim>\<open>open\<close> raises \<^verbatim>\<open>IOError\<close> on a missing file, reading an
  undecodable one raises a \<^verbatim>\<open>ValueError\<close>, and so does \<^verbatim>\<open>int\<close> on a text that is no
  number; all three are caught and give 0.
\<close>

definition read_file :: "hs_store \<Rightarrow> error + ustring" where
  "read_file st =
     (case hs_file st of Missing \<Rightarrow> Inl IOError | Unreadable \<Rightarrow> Inl ValueError | Content s \<Rightarrow> Inr s)"

definition load_high_score :: "interpreter \<Rightarrow> hs_store \<Rightarrow> int" where
  "load_high_score ip st =
     (case read_file st of
        Inl e \<Rightarrow> 0
      | Inr s \<Rightarrow> (case py_int ip s of Inl e \<Rightarrow> 0 | Inr n \<Rightarrow> n))"

text \<open>
  \<^verbatim>\<open>save_high_score\<close> has no handler: a failing \<^verbatim>\<open>open\<close> or \<^verbatim>\<open>write\<close> raises,
  and so does \<^verbatim>\<open>str\<close> once the file is open.
\<close>

definition save_high_score :: "interpreter \<Rightarrow> hs_store \<Rightarrow> int \<Rightarrow> error + hs_store" where
  "save_high_score ip st n =
     (if writable st then
        (case py_str ip n of Inl e \<Rightarrow> Inl e | Inr t \<Rightarrow> Inr (st\<lparr>hs_file := Content t\<rparr>))
      else Inl IOError)"

subsection \<open>Game components\<close>

definition create_snake :: "cell list" where
  "create_snake = [(GRID_WIDTH div 2, GRID_HEIGHT div 2)]"

text \<open>The two placement loops draw x, then y, and repeat until the cell is off the snake.\<close>

partial_function (option) create_food :: "cell list \<Rightarrow> int stream \<Rightarrow> (cell \<times> int stream) option" where
  "create_food body r =
     (case randint 0 (GRID_WIDTH - 1) r of (x, r1) \<Rightarrow>
      case randint 0 (GRID_HEIGHT - 1) r1 of (y, r2) \<Rightarrow>
        if (x, y) \<notin> set body then Some ((x, y), r2) else create_food body r2)"

partial_function (option) create_powerup :: "cell list \<Rightarrow> int stream \<Rightarrow> (cell \<times> int stream) option" where
  "create_powerup body r =
     (case randint 0 (GRID_WIDTH - 1) r of (x, r1) \<Rightarrow>
      case randint 0 (GRID_HEIGHT - 1) r1 of (y, r2) \<Rightarrow>
        if (x, y) \<notin> set body then Some ((x, y), r2) else create_powerup body r2)"

subsection \<open>Game logic\<close>

text \<open>\<^verbatim>\<open>move_snake\<close>: \<^verbatim>\<open>snake_body[0]\<close> raises on an empty list; the new head goes in front.\<close>

fun move_snake :: "cell list \<Rightarrow> direction \<Rightarrow> error + cell list" where
  "move_snake [] d = Inl IndexError"
| "move_snake ((head_x, head_y) # rest) d =
     Inr ((case d of
             UP \<Rightarrow> (head_x, head_y - 1)
           | DOWN \<Rightarrow> (head_x, head_y + 1)
           | LEFT \<Rightarrow> (head_x - 1, head_y)
           | RIGHT \<Rightarrow> (head_x + 1, head_y)) # (head_x, head_y) # rest)"

fun check_collision :: "cell list \<Rightarrow> error + bool" where
  "check_collision [] = Inl IndexError"
| "check_collision (head # rest) =
     Inr (if fst head < 0 \<or> fst head \<ge> GRID_WIDTH \<or> snd head < 0 \<or> snd head \<ge> GRID_HEIGHT
          then True
          else if head \<in> set rest then True
          else False)"

text \<open>
  \<^verbatim>\<open>game_over_screen\<close> polls the event queue until a batch holds a closing of the
  window, an R or a Q; the rest of that batch is dropped with it.
\<close>

fun scan_events :: "event list \<Rightarrow> action option" where
  "scan_events [] = None"
| "scan_events (QUIT # es) = Some ACTION_QUIT"
| "scan_events (KEYDOWN k # es) =
     (if k = K_r then Some ACTION_RESTART
      else if k = K_q then Some ACTION_QUIT
      else scan_events es)"
| "scan_events (OTHER_EVENT # es) = scan_events es"

partial_function (option) game_over_screen :: "event list stream \<Rightarrow> (action \<times> event list stream) option" where
  "game_over_screen ev =
     (case scan_events (shd ev) of
        Some a \<Rightarrow> Some (a, stl ev)
      | None \<Rightarrow> game_over_screen (stl ev))"

subsection \<open>The main loop\<close>

text \<open>Sequencing of computations that may raise or never return.\<close>

definition and_then :: "(error + 'a) option \<Rightarrow> ('a \<Rightarrow> (error + 'b) option) \<Rightarrow> (error + 'b) option" where
  "and_then m f = (case m of None \<Rightarrow> None | Some (Inl e) \<Rightarrow> Some (Inl e) | Some (Inr x) \<Rightarrow> f x)"

text \<open>The set-up of one game, at the top of the outer loop.\<close>

definition init_session :: "world \<Rightarrow> (state \<times> world) option" where
  "init_session w =
     (case create_food create_snake (rng w) of
        None \<Rightarrow> None
      | Some (f, r) \<Rightarrow>
          (case time_time (w\<lparr>rng := r\<rparr>) of (t, w1) \<Rightarrow>
             Some (\<lparr>high_score = load_high_score (python w) (store w),
                    snake_body = create_snake,
                    food_pos = f,
                    powerup_pos = None,
                    direction = RIGHT,
                    score = 0,
                    paused = False,
                    speed = SNAKE_SPEED_NORMAL,
                    powerup_active = False,
                    powerup_timer = 0,
                    last_powerup_spawn = t,
                    running = True\<rparr>, w1)))"

text \<open>One event of the \<^verbatim>\<open>for event in pygame.event.get()\<close> loop, and the whole batch.\<close>

fun handle_event :: "event \<Rightarrow> state \<Rightarrow> (unit, state) ctl" where
  "handle_event QUIT s = Exit ()"
| "handle_event (KEYDOWN k) s =
     Continue
       (if k = K_SPACE then s\<lparr>paused := \<not> paused s\<rparr>
        else if \<not> paused s then
          (if k = K_UP \<and> direction s \<noteq> DOWN then s\<lparr>direction := UP\<rparr>
           else if k = K_DOWN \<and> direction s \<noteq> UP then s\<lparr>direction := DOWN\<rparr>
           else if k = K_LEFT \<and> direction s \<noteq> RIGHT then s\<lparr>direction := LEFT\<rparr>
           else if k = K_RIGHT \<and> direction s \<noteq> LEFT then s\<lparr>direction := RIGHT\<rparr>
           else s)
        else s)"
| "handle_event OTHER_EVENT s = Continue s"

fun handle_events :: "event list \<Rightarrow> state \<Rightarrow> (unit, state) ctl" where
  "handle_events [] s = Continue s"
| "handle_events (e # es) s =
     (case handle_event e s of Exit u \<Rightarrow> Exit u | Continue s' \<Rightarrow> handle_events es s')"

text \<open>Move the snake, then eat and grow, or drop the tail.\<close>

definition advance :: "world \<Rightarrow> state \<Rightarrow> (error + state \<times> world) option" where
  "advance w s =
     (case move_snake (snake_body s) (direction s) of
        Inl e \<Rightarrow> Some (Inl e)
      | Inr body \<Rightarrow>
          (case body of
             [] \<Rightarrow> Some (Inl IndexError)
           | h # _ \<Rightarrow>
               if h = food_pos s then
                 (case create_food body (rng w) of
                    None \<Rightarrow> None
                  | Some (f, r) \<Rightarrow>
                      Some (Inr (s\<lparr>snake_body := body, score := score s + 1, food_pos := f\<rparr>,
                                 w\<lparr>rng := r\<rparr>)))
               else Some (Inr (s\<lparr>snake_body := butlast body\<rparr>, w))))"

text \<open>The head on the power-up: boost, and the power-up is gone.\<close>

definition powerup_collision :: "world \<Rightarrow> state \<Rightarrow> (error + state \<times> world) option" where
  "powerup_collision w s =
     (case powerup_pos s of
        None \<Rightarrow> Some (Inr (s, w))
      | Some p \<Rightarrow>
          (case snake_body s of
             [] \<Rightarrow> Some (Inl IndexError)
           | h # _ \<Rightarrow>
               if h = p then
                 (case time_time w of (t, w1) \<Rightarrow>
                    Some (Inr (s\<lparr>speed := SNAKE_SPEED_BOOST, powerup_active := True,
                                  powerup_timer := t, powerup_pos := None\<rparr>, w1)))
               else Some (Inr (s, w))))"

text \<open>The boost runs out; the clock is read only while the boost is on.\<close>

definition powerup_expiry :: "world \<Rightarrow> state \<Rightarrow> (error + state \<times> world) option" where
  "powerup_expiry w s =
     (if powerup_active s then
        (case time_time w of (t, w1) \<Rightarrow>
           if t - powerup_timer s > POWERUP_DURATION
           then Some (Inr (s\<lparr>speed := SNAKE_SPEED_NORMAL, powerup_active := False\<rparr>, w1))
           else Some (Inr (s, w1)))
      else Some (Inr (s, w)))"

text \<open>A new power-up, off the snake, when the interval is over and none is there.\<close>

definition powerup_spawn :: "world \<Rightarrow> state \<Rightarrow> (error + state \<times> world) option" where
  "powerup_spawn w s =
     (case time_time w of (t, w1) \<Rightarrow>
        if t - last_powerup_spawn s > POWERUP_SPAWN_INTERVAL \<and> powerup_pos s = None then
          (case create_powerup (snake_body s) (rng w1) of
             None \<Rightarrow> None
           | Some (p, r) \<Rightarrow>
               (case time_time (w1\<lparr>rng := r\<rparr>) of (t2, w2) \<Rightarrow>
                  Some (Inr (s\<lparr>powerup_pos := Some p, last_powerup_spawn := t2\<rparr>, w2))))
        else Some (Inr (s, w1)))"

text \<open>The body of the loop from the move down to the spawning of a power-up.\<close>

definition update :: "world \<Rightarrow> state \<Rightarrow> (error + state \<times> world) option" where
  "update w s =
     and_then (advance w s) (\<lambda>(s1, w1).
     and_then (powerup_collision w1 s1) (\<lambda>(s2, w2).
     and_then (powerup_expiry w2 s2) (\<lambda>(s3, w3).
     powerup_spawn w3 s3)))"

text \<open>The high score at game over: set in memory first, then written to the file.\<close>

definition update_high_score :: "world \<Rightarrow> state \<Rightarrow> error + state \<times> world" where
  "update_high_score w s =
     (if score s > high_score s then
        (let s1 = s\<lparr>high_score := score s\<rparr> in
         case save_high_score (python w) (store w) (high_score s1) of
           Inl e \<Rightarrow> Inl e
         | Inr st \<Rightarrow> Inr (s1, w\<lparr>store := st\<rparr>))
      else Inr (s, w))"

text \<open>The check for game over, and what the player chooses on the game-over screen.\<close>

definition game_over_check :: "world \<Rightarrow> state \<Rightarrow> (error + (world, state \<times> world) ctl) option" where
  "game_over_check w s =
     (case check_collision (snake_body s) of
        Inl e \<Rightarrow> Some (Inl e)
      | Inr False \<Rightarrow> Some (Inr (Continue (s, w)))
      | Inr True \<Rightarrow>
          (case update_high_score w s of
             Inl e \<Rightarrow> Some (Inl e)
           | Inr (s1, w1) \<Rightarrow>
               (case game_over_screen (events w1) of
                  None \<Rightarrow> None
                | Some (a, ev) \<Rightarrow>
                    (case a of
                       ACTION_QUIT \<Rightarrow> Some (Inr (Exit (w1\<lparr>events := ev\<rparr>)))
                     | ACTION_RESTART \<Rightarrow>
                         Some (Inr (Continue (s1\<lparr>running := False\<rparr>, w1\<lparr>events := ev\<rparr>)))))))"

text \<open>What the loop body does when the game is not paused.\<close>

definition tick :: "world \<Rightarrow> state \<Rightarrow> (error + (world, state \<times> world) ctl) option" where
  "tick w s = and_then (update w s) (\<lambda>(s1, w1). game_over_check w1 s1)"

text \<open>One pass through the body of \<^verbatim>\<open>while running\<close>: the events, then the tick unless paused.\<close>

definition frame :: "world \<Rightarrow> state \<Rightarrow> (error + (world, state \<times> world) ctl) option" where
  "frame w s =
     (case handle_events (shd (events w)) s of
        Exit u \<Rightarrow> Some (Inr (Exit (w\<lparr>events := stl (events w)\<rparr>)))
      | Continue s0 \<Rightarrow>
          if paused s0 then Some (Inr (Continue (s0, w\<lparr>events := stl (events w)\<rparr>)))
          else tick (w\<lparr>events := stl (events w)\<rparr>) s0)"

text \<open>The first \<open>n\<close> passes of \<^verbatim>\<open>while running\<close>.\<close>

fun frames :: "nat \<Rightarrow> world \<Rightarrow> state \<Rightarrow> (error + (world, state \<times> world) ctl) option" where
  "frames 0 w s = Some (Inr (Continue (s, w)))"
| "frames (Suc n) w s =
     (if running s then
        (case frame w s of
           Some (Inr (Continue (s', w'))) \<Rightarrow> frames n w' s'
         | r \<Rightarrow> r)
      else Some (Inr (Continue (s, w))))"

subsection \<open>Notions used to state the properties\<close>

text \<open>The head \<^verbatim>\<open>move_snake\<close> computes from the old head and the direction.\<close>

definition new_head :: "cell \<Rightarrow> direction \<Rightarrow> cell" where
  "new_head h d =
     (case d of
        UP \<Rightarrow> (fst h, snd h - 1)
      | DOWN \<Rightarrow> (fst h, snd h + 1)
      | LEFT \<Rightarrow> (fst h - 1, snd h)
      | RIGHT \<Rightarrow> (fst h + 1, snd h))"

text \<open>A cell of the grid, and the list of all of them.\<close>

definition in_grid :: "cell \<Rightarrow> bool" where
  "in_grid c = (0 \<le> fst c \<and> fst c < GRID_WIDTH \<and> 0 \<le> snd c \<and> snd c < GRID_HEIGHT)"

definition all_cells :: "cell list" where
  "all_cells = List.product [0..GRID_WIDTH - 1] [0..GRID_HEIGHT - 1]"

text \<open>
  One pass of a placement loop draws a cell with two calls of \<^verbatim>\<open>randint\<close>;
  \<open>drawn_cell r n\<close> is the cell of pass \<open>n\<close> (counted from 0) on the random source \<open>r\<close>.
\<close>

definition draw :: "int stream \<Rightarrow> cell \<times> int stream" where
  "draw r =
     (case randint 0 (GRID_WIDTH - 1) r of (x, r1) \<Rightarrow>
      case randint 0 (GRID_HEIGHT - 1) r1 of (y, r2) \<Rightarrow> ((x, y), r2))"

definition drawn_cell :: "int stream \<Rightarrow> nat \<Rightarrow> cell" where
  "drawn_cell r n = fst (draw (sdrop (2 * n) r))"

text \<open>The opposite of a direction, and the key that asks for a direction.\<close>

fun opposite :: "direction \<Rightarrow> direction" where
  "opposite UP = DOWN"
| "opposite DOWN = UP"
| "opposite LEFT = RIGHT"
| "opposite RIGHT = LEFT"

fun key_of :: "direction \<Rightarrow> key" where
  "key_of UP = K_UP"
| "key_of DOWN = K_DOWN"
| "key_of LEFT = K_LEFT"
| "key_of RIGHT = K_RIGHT"

text \<open>
  The game goes on after a pass of the loop body when the pass comes back to the loop
  test with \<^verbatim>\<open>running\<close> still true. It does not when the pass returns from
  \<^verbatim>\<open>game_loop\<close>, clears \<^verbatim>\<open>running\<close>, raises, or stays on the game-over screen.
\<close>

definition game_goes_on :: "(error + (world, state \<times> world) ctl) option \<Rightarrow> bool" where
  "game_goes_on res = (case res of Some (Inr (Continue (s, w))) \<Rightarrow> running s | _ \<Rightarrow> False)"



subsection \<open>Example states\<close>

text \<open>
  A snake of one cell at (10, 10) heading right, with the food right in front of it;
  a random source whose first cell (11, 10) is the one the snake moves onto and whose
  second cell is (3, 4); no events; no high score file yet; an interpreter with the
  usual limit of 4300 digits, the white space of Unicode and two of its rows of digits
  (Arabic-Indic from U+0660 and full-width from U+FF10).
\<close>

definition example_python :: interpreter where
  "example_python =
     \<lparr>max_str_digits = 4300,
      unicode_space = (\<lambda>c. c \<in> {133, 160, 5760, 8232, 8233, 8239, 8287, 12288} \<or>
                            (8192 \<le> c \<and> c \<le> 8202)),
      unicode_decimal = (\<lambda>c. if 1632 \<le> c \<and> c \<le> 1641 then Some (c - 1632)
                              else if 65296 \<le> c \<and> c \<le> 65305 then Some (c - 65296)
                              else None)\<rparr>"

definition example_state :: state where
  "example_state =
     \<lparr>high_score = 0, snake_body = [(10, 10)], food_pos = (11, 10), powerup_pos = None,
      direction = RIGHT, score = 0, paused = False, speed = SNAKE_SPEED_NORMAL,
      powerup_active = False, powerup_timer = 0, last_powerup_spawn = 0, running = True\<rparr>"

definition example_world :: world where
  "example_world =
     \<lparr>rng = 11 ## 10 ## 3 ## 4 ## sconst 0, clock = sconst 0, events = sconst [],
      store = \<lparr>hs_file = Missing, writable = True\<rparr>, python = example_python\<rparr>"

text \<open>A snake of four cells in a square, its head about to step onto the cell of its tail.\<close>

definition coiled_state :: state where
  "coiled_state =
     example_state\<lparr>snake_body := [(5, 5), (5, 6), (6, 6), (6, 5)], food_pos := (0, 0), score := 3\<rparr>"

text \<open>A snake at the right-hand wall with five points, and a player who then presses R.\<close>

definition wall_state :: state where
  "wall_state = example_state\<lparr>snake_body := [(39, 15)], food_pos := (0, 0), score := 5\<rparr>"

definition restart_world :: world where
  "restart_world = example_world\<lparr>events := [KEYDOWN K_r] ## sconst []\<rparr>"

text \<open>The same with a high score file that cannot be written.\<close>

definition readonly_world :: world where
  "readonly_world = restart_world\<lparr>store := \<lparr>hs_file = Missing, writable = False\<rparr>\<rparr>"

text \<open>
  A snake of two cells heading right; a pass without events, then a pass whose batch
  holds UP and LEFT.
\<close>

definition two_cell_state :: state where
  "two_cell_state = example_state\<lparr>snake_body := [(10, 10), (9, 10)], food_pos := (0, 0)\<rparr>"

definition reversal_world :: world where
  "reversal_world = example_world\<lparr>events := [] ## [KEYDOWN K_UP, KEYDOWN K_LEFT] ## sconst []\<rparr>"



text \<open>
  The paused snake of two cells; a pass with an arrow key, a pass without events, and a
  pass whose batch ends with the space key.
\<close>

definition paused_state :: state where
  "paused_state = two_cell_state\<lparr>paused := True\<rparr>"

definition resume_world :: world where
  "resume_world =
     example_world\<lparr>events := [KEYDOWN K_UP] ## [] ## [KEYDOWN K_LEFT, KEYDOWN K_SPACE] ## sconst []\<rparr>"

section \<open>Properties\<close>

subsection \<open>Grid and random cells\<close>

lemma GRID_WIDTH_eq: "GRID_WIDTH = 40"
  by (simp add: GRID_WIDTH_def SCREEN_WIDTH_def GRID_SIZE_def)

lemma GRID_HEIGHT_eq: "GRID_HEIGHT = 30"
  by (simp add: GRID_HEIGHT_def SCREEN_HEIGHT_def GRID_SIZE_def)

lemma draw_eq: "draw r = ((shd r mod GRID_WIDTH, shd (stl r) mod GRID_HEIGHT), stl (stl r))"
  by (simp add: draw_def randint_def)

lemma drawn_cell_0: "drawn_cell r 0 = fst (draw r)"
  by (simp add: drawn_cell_def)

lemma drawn_cell_Suc: "drawn_cell r (Suc n) = drawn_cell (snd (draw r)) n"
  by (simp add: drawn_cell_def draw_eq)

lemma in_grid_drawn_cell: "in_grid (drawn_cell r n)"
  by (simp add: drawn_cell_def draw_eq in_grid_def GRID_WIDTH_eq GRID_HEIGHT_eq)

lemma set_all_cells: "set all_cells = {c. in_grid c}"
  by (auto simp: all_cells_def in_grid_def)

subsection \<open>The placement loops\<close>

text \<open>
  \<^verbatim>\<open>create_food\<close> returns the first drawn cell that is off the snake, and does not
  return when no drawn cell ever is.
\<close>

lemma create_food_draw:
  "create_food body r =
     (if fst (draw r) \<notin> set body then Some (draw r) else create_food body (snd (draw r)))"
  by (subst create_food.simps) (simp add: draw_def split: prod.splits)

lemma create_food_first_free:
  "\<forall>m<n. drawn_cell r m \<in> set body \<Longrightarrow> drawn_cell r n \<notin> set body \<Longrightarrow>
   create_food body r = Some (drawn_cell r n, sdrop (2 * Suc n) r)"
proof (induction n arbitrary: r)
  case 0
  then show ?case
    by (subst create_food_draw) (simp add: drawn_cell_0 draw_eq numeral_2_eq_2)
next
  case (Suc n)
  from Suc.prems(1) have "drawn_cell r 0 \<in> set body" by blast
  then have step: "create_food body r = create_food body (snd (draw r))"
    by (subst create_food_draw) (simp add: drawn_cell_0)
  have "\<forall>m<n. drawn_cell (snd (draw r)) m \<in> set body"
    using Suc.prems(1) by (auto simp: drawn_cell_Suc [symmetric])
  moreover have "drawn_cell (snd (draw r)) n \<notin> set body"
    using Suc.prems(2) by (simp add: drawn_cell_Suc)
  ultimately have "create_food body (snd (draw r)) =
      Some (drawn_cell (snd (draw r)) n, sdrop (2 * Suc n) (snd (draw r)))"
    by (rule Suc.IH)
  then show ?case
    by (simp add: step drawn_cell_Suc draw_eq)
qed

lemma create_food_Some_free:
  assumes "create_food body r = Some y"
  shows "\<exists>n. drawn_cell r n \<notin> set body"
proof (rule create_food.raw_induct [where P = "\<lambda>body r y. \<exists>n. drawn_cell r n \<notin> set body", OF _ assms])
  fix f :: "cell list \<Rightarrow> int stream \<Rightarrow> (cell \<times> int stream) option"
  fix body r y
  assume IH: "\<And>b r y. f b r = Some y \<Longrightarrow> \<exists>n. drawn_cell r n \<notin> set b"
  assume eq: "(case randint 0 (GRID_WIDTH - 1) r of (x, r1) \<Rightarrow>
      case randint 0 (GRID_HEIGHT - 1) r1 of (y, r2) \<Rightarrow>
        if (x, y) \<notin> set body then Some ((x, y), r2) else f body r2) = Some y"
  show "\<exists>n. drawn_cell r n \<notin> set body"
  proof (cases "fst (draw r) \<in> set body")
    case True
    with eq have "f body (snd (draw r)) = Some y"
      by (simp add: draw_def split: prod.splits)
    then obtain n where "drawn_cell (snd (draw r)) n \<notin> set body"
      using IH by blast
    then have "drawn_cell r (Suc n) \<notin> set body" by (simp add: drawn_cell_Suc)
    then show ?thesis ..
  next
    case False
    then have "drawn_cell r 0 \<notin> set body" by (simp add: drawn_cell_0)
    then show ?thesis ..
  qed
qed

lemma create_food_None_iff:
  "create_food body r = None \<longleftrightarrow> (\<forall>n. drawn_cell r n \<in> set body)"
proof
  assume none: "create_food body r = None"
  show "\<forall>n. drawn_cell r n \<in> set body"
  proof (rule ccontr)
    assume "\<not> (\<forall>n. drawn_cell r n \<in> set body)"
    then have ex: "\<exists>n. drawn_cell r n \<notin> set body" by simp
    define k where "k = (LEAST n. drawn_cell r n \<notin> set body)"
    have "drawn_cell r k \<notin> set body"
      unfolding k_def using ex by (rule LeastI_ex)
    moreover have "\<forall>m<k. drawn_cell r m \<in> set body"
      unfolding k_def using not_less_Least by blast
    ultimately have "create_food body r = Some (drawn_cell r k, sdrop (2 * Suc k) r)"
      by (rule create_food_first_free [rotated])
    with none show False by simp
  qed
next
  assume all: "\<forall>n. drawn_cell r n \<in> set body"
  show "create_food body r = None"
  proof (cases "create_food body r")
    case None
    then show ?thesis .
  next
    case (Some y)
    then have "\<exists>n. drawn_cell r n \<notin> set body" by (rule create_food_Some_free)
    with all show ?thesis by blast
  qed
qed

lemma create_food_Some_first:
  assumes "create_food body r = Some (c, r')"
  shows "\<exists>n. c = drawn_cell r n \<and> r' = sdrop (2 * Suc n) r \<and> drawn_cell r n \<notin> set body
             \<and> (\<forall>m<n. drawn_cell r m \<in> set body)"
proof -
  from assms have ex: "\<exists>n. drawn_cell r n \<notin> set body" by (rule create_food_Some_free)
  define k where "k = (LEAST n. drawn_cell r n \<notin> set body)"
  have free: "drawn_cell r k \<notin> set body"
    unfolding k_def using ex by (rule LeastI_ex)
  have before: "\<forall>m<k. drawn_cell r m \<in> set body"
    unfolding k_def using not_less_Least by blast
  from before free have "create_food body r = Some (drawn_cell r k, sdrop (2 * Suc k) r)"
    by (rule create_food_first_free)
  with assms have "c = drawn_cell r k" "r' = sdrop (2 * Suc k) r" by simp_all
  with free before show ?thesis by blast
qed

lemma create_food_sound:
  "create_food body r = Some (c, r') \<Longrightarrow> c \<notin> set body \<and> in_grid c"
  using create_food_Some_first [of body r c r'] in_grid_drawn_cell by auto

lemma create_food_returns:
  "drawn_cell r n \<notin> set body \<Longrightarrow> \<exists>c r'. create_food body r = Some (c, r') \<and> c \<notin> set body"
  using create_food_None_iff [of body r] create_food_sound [of body r]
  by (cases "create_food body r") auto

lemma create_food_full_grid:
  assumes "\<forall>c. in_grid c \<longrightarrow> c \<in> set body"
  shows "create_food body r = None"
  using assms in_grid_drawn_cell unfolding create_food_None_iff by blast

text \<open>The same for \<^verbatim>\<open>create_powerup\<close>, whose loop is the same.\<close>

lemma create_powerup_draw:
  "create_powerup body r =
     (if fst (draw r) \<notin> set body then Some (draw r) else create_powerup body (snd (draw r)))"
  by (subst create_powerup.simps) (simp add: draw_def split: prod.splits)

lemma create_powerup_first_free:
  "\<forall>m<n. drawn_cell r m \<in> set body \<Longrightarrow> drawn_cell r n \<notin> set body \<Longrightarrow>
   create_powerup body r = Some (drawn_cell r n, sdrop (2 * Suc n) r)"
proof (induction n arbitrary: r)
  case 0
  then show ?case
    by (subst create_powerup_draw) (simp add: drawn_cell_0 draw_eq numeral_2_eq_2)
next
  case (Suc n)
  from Suc.prems(1) have "drawn_cell r 0 \<in> set body" by blast
  then have step: "create_powerup body r = create_powerup body (snd (draw r))"
    by (subst create_powerup_draw) (simp add: drawn_cell_0)
  have "\<forall>m<n. drawn_cell (snd (draw r)) m \<in> set body"
    using Suc.prems(1) by (auto simp: drawn_cell_Suc [symmetric])
  moreover have "drawn_cell (snd (draw r)) n \<notin> set body"
    using Suc.prems(2) by (simp add: drawn_cell_Suc)
  ultimately have "create_powerup body (snd (draw r)) =
      Some (drawn_cell (snd (draw r)) n, sdrop (2 * Suc n) (snd (draw r)))"
    by (rule Suc.IH)
  then show ?case
    by (simp add: step drawn_cell_Suc draw_eq)
qed

lemma create_powerup_Some_free:
  assumes "create_powerup body r = Some y"
  shows "\<exists>n. drawn_cell r n \<notin> set body"
proof (rule create_powerup.raw_induct [where P = "\<lambda>body r y. \<exists>n. drawn_cell r n \<notin> set body", OF _ assms])
  fix f :: "cell list \<Rightarrow> int stream \<Rightarrow> (cell \<times> int stream) option"
  fix body r y
  assume IH: "\<And>b r y. f b r = Some y \<Longrightarrow> \<exists>n. drawn_cell r n \<notin> set b"
  assume eq: "(case randint 0 (GRID_WIDTH - 1) r of (x, r1) \<Rightarrow>
      case randint 0 (GRID_HEIGHT - 1) r1 of (y, r2) \<Rightarrow>
        if (x, y) \<notin> set body then Some ((x, y), r2) else f body r2) = Some y"
  show "\<exists>n. drawn_cell r n \<notin> set body"
  proof (cases "fst (draw r) \<in> set body")
    case True
    with eq have "f body (snd (draw r)) = Some y"
      by (simp add: draw_def split: prod.splits)
    then obtain n where "drawn_cell (snd (draw r)) n \<notin> set body"
      using IH by blast
    then have "drawn_cell r (Suc n) \<notin> set body" by (simp add: drawn_cell_Suc)
    then show ?thesis ..
  next
    case False
    then have "drawn_cell r 0 \<notin> set body" by (simp add: drawn_cell_0)
    then show ?thesis ..
  qed
qed

lemma create_powerup_None_iff:
  "create_powerup body r = None \<longleftrightarrow> (\<forall>n. drawn_cell r n \<in> set body)"
proof
  assume none: "create_powerup body r = None"
  show "\<forall>n. drawn_cell r n \<in> set body"
  proof (rule ccontr)
    assume "\<not> (\<forall>n. drawn_cell r n \<in> set body)"
    then have ex: "\<exists>n. drawn_cell r n \<notin> set body" by simp
    define k where "k = (LEAST n. drawn_cell r n \<notin> set body)"
    have "drawn_cell r k \<notin> set body"
      unfolding k_def using ex by (rule LeastI_ex)
    moreover have "\<forall>m<k. drawn_cell r m \<in> set body"
      unfolding k_def using not_less_Least by blast
    ultimately have "create_powerup body r = Some (drawn_cell r k, sdrop (2 * Suc k) r)"
      by (rule create_powerup_first_free [rotated])
    with none show False by simp
  qed
next
  assume all: "\<forall>n. drawn_cell r n \<in> set body"
  show "create_powerup body r = None"
  proof (cases "create_powerup body r")
    case None
    then show ?thesis .
  next
    case (Some y)
    then have "\<exists>n. drawn_cell r n \<notin> set body" by (rule create_powerup_Some_free)
    with all show ?thesis by blast
  qed
qed

lemma create_powerup_Some_first:
  assumes "create_powerup body r = Some (c, r')"
  shows "\<exists>n. c = drawn_cell r n \<and> r' = sdrop (2 * Suc n) r \<and> drawn_cell r n \<notin> set body
             \<and> (\<forall>m<n. drawn_cell r m \<in> set body)"
proof -
  from assms have ex: "\<exists>n. drawn_cell r n \<notin> set body" by (rule create_powerup_Some_free)
  define k where "k = (LEAST n. drawn_cell r n \<notin> set body)"
  have free: "drawn_cell r k \<notin> set body"
    unfolding k_def using ex by (rule LeastI_ex)
  have before: "\<forall>m<k. drawn_cell r m \<in> set body"
    unfolding k_def using not_less_Least by blast
  from before free have "create_powerup body r = Some (drawn_cell r k, sdrop (2 * Suc k) r)"
    by (rule create_powerup_first_free)
  with assms have "c = drawn_cell r k" "r' = sdrop (2 * Suc k) r" by simp_all
  with free before show ?thesis by blast
qed

lemma create_powerup_sound:
  "create_powerup body r = Some (c, r') \<Longrightarrow> c \<notin> set body \<and> in_grid c"
  using create_powerup_Some_first [of body r c r'] in_grid_drawn_cell by auto

lemma create_powerup_returns:
  "drawn_cell r n \<notin> set body \<Longrightarrow> \<exists>c r'. create_powerup body r = Some (c, r') \<and> c \<notin> set body"
  using create_powerup_None_iff [of body r] create_powerup_sound [of body r]
  by (cases "create_powerup body r") auto

lemma create_powerup_full_grid:
  assumes "\<forall>c. in_grid c \<longrightarrow> c \<in> set body"
  shows "create_powerup body r = None"
  using assms in_grid_drawn_cell unfolding create_powerup_None_iff by blast

subsection \<open>The steps of the loop body\<close>

lemma move_snake_Cons: "move_snake (h # t) d = Inr (new_head h d # h # t)"
  by (cases h; cases d) (simp_all add: new_head_def)

lemma advance_no_food:
  "snake_body s = h # t \<Longrightarrow> new_head h (direction s) \<noteq> food_pos s \<Longrightarrow>
   advance w s = Some (Inr (s\<lparr>snake_body := new_head h (direction s) # butlast (h # t)\<rparr>, w))"
  by (simp add: advance_def move_snake_Cons)

lemma advance_food:
  "snake_body s = h # t \<Longrightarrow> new_head h (direction s) = food_pos s \<Longrightarrow>
   advance w s =
     (case create_food (food_pos s # h # t) (rng w) of
        None \<Rightarrow> None
      | Some (f, r) \<Rightarrow>
          Some (Inr (s\<lparr>snake_body := food_pos s # h # t, score := score s + 1, food_pos := f\<rparr>,
                     w\<lparr>rng := r\<rparr>)))"
  by (simp add: advance_def move_snake_Cons)

text \<open>The fields the power-up steps leave alone.\<close>

lemma powerup_collision_keeps:
  "powerup_collision w s = Some (Inr (s', w')) \<Longrightarrow>
   snake_body s' = snake_body s \<and> food_pos s' = food_pos s \<and> score s' = score s \<and>
   high_score s' = high_score s \<and> running s' = running s \<and> direction s' = direction s \<and>
   paused s' = paused s \<and> rng w' = rng w \<and> store w' = store w \<and> events w' = events w \<and>
   python w' = python w \<and>
   (powerup_pos s' = None \<or> powerup_pos s' = powerup_pos s)"
  by (auto simp: powerup_collision_def time_time_def split: option.splits list.splits if_splits)

lemma powerup_expiry_keeps:
  "powerup_expiry w s = Some (Inr (s', w')) \<Longrightarrow>
   snake_body s' = snake_body s \<and> food_pos s' = food_pos s \<and> score s' = score s \<and>
   high_score s' = high_score s \<and> running s' = running s \<and> direction s' = direction s \<and>
   paused s' = paused s \<and> rng w' = rng w \<and> store w' = store w \<and> events w' = events w \<and>
   python w' = python w \<and>
   powerup_pos s' = powerup_pos s"
  by (auto simp: powerup_expiry_def time_time_def split: if_splits)

lemma powerup_spawn_keeps:
  "powerup_spawn w s = Some (Inr (s', w')) \<Longrightarrow>
   snake_body s' = snake_body s \<and> food_pos s' = food_pos s \<and> score s' = score s \<and>
   high_score s' = high_score s \<and> running s' = running s \<and> direction s' = direction s \<and>
   paused s' = paused s \<and> store w' = store w \<and> events w' = events w \<and>
   python w' = python w \<and>
   (powerup_pos s' = powerup_pos s \<or>
    (powerup_pos s = None \<and> (\<exists>p. powerup_pos s' = Some p \<and> p \<notin> set (snake_body s') \<and> in_grid p)))"
  by (auto simp: powerup_spawn_def time_time_def dest: create_powerup_sound
      split: if_splits option.splits prod.splits)

lemma and_then_Some_Inr:
  "and_then m f = Some (Inr y) \<longleftrightarrow> (\<exists>x. m = Some (Inr x) \<and> f x = Some (Inr y))"
  by (auto simp: and_then_def split: option.splits sum.splits)

lemma update_Some_Inr:
  "update w s = Some (Inr (s', w')) \<longleftrightarrow>
   (\<exists>s1 w1 s2 w2 s3 w3. advance w s = Some (Inr (s1, w1)) \<and>
      powerup_collision w1 s1 = Some (Inr (s2, w2)) \<and>
      powerup_expiry w2 s2 = Some (Inr (s3, w3)) \<and>
      powerup_spawn w3 s3 = Some (Inr (s', w')))"
  by (simp add: update_def and_then_Some_Inr split_paired_Ex)

lemma update_keeps:
  assumes "update w s = Some (Inr (s', w'))"
  shows "\<exists>s1 w1. advance w s = Some (Inr (s1, w1)) \<and>
     snake_body s' = snake_body s1 \<and> food_pos s' = food_pos s1 \<and> score s' = score s1 \<and>
     high_score s' = high_score s1 \<and> running s' = running s1 \<and> direction s' = direction s1 \<and>
     paused s' = paused s1 \<and> store w' = store w1 \<and> events w' = events w1 \<and>
     python w' = python w1"
proof -
  from assms obtain s1 w1 s2 w2 s3 w3 where
    a: "advance w s = Some (Inr (s1, w1))" and
    b: "powerup_collision w1 s1 = Some (Inr (s2, w2))" and
    c: "powerup_expiry w2 s2 = Some (Inr (s3, w3))" and
    d: "powerup_spawn w3 s3 = Some (Inr (s', w'))"
    unfolding update_Some_Inr by blast
  from powerup_collision_keeps [OF b] powerup_expiry_keeps [OF c] powerup_spawn_keeps [OF d] a
  show ?thesis by simp
qed


lemma advance_keeps:
  "advance w s = Some (Inr (s', w')) \<Longrightarrow>
   powerup_pos s' = powerup_pos s \<and> high_score s' = high_score s \<and> running s' = running s \<and>
   direction s' = direction s \<and> paused s' = paused s \<and> store w' = store w \<and>
   events w' = events w \<and> clock w' = clock w \<and> python w' = python w"
  by (auto simp: advance_def split: sum.splits list.splits if_splits option.splits)

lemma advance_Nil: "snake_body s = [] \<Longrightarrow> advance w s = Some (Inl IndexError)"
  by (simp add: advance_def)

lemma check_collision_Cons:
  "check_collision (h # t) = Inr (\<not> in_grid h \<or> h \<in> set t)"
  by (auto simp: in_grid_def)


lemma update_high_score_unwritable:
  "score s > high_score s \<Longrightarrow> \<not> writable (store w) \<Longrightarrow> update_high_score w s = Inl IOError"
  by (simp add: update_high_score_def save_high_score_def)


lemma update_high_score_Inr:
  "update_high_score w s = Inr (s', w') \<Longrightarrow>
   s' = s\<lparr>high_score := max (high_score s) (score s)\<rparr> \<and>
   rng w' = rng w \<and> clock w' = clock w \<and> events w' = events w \<and> python w' = python w \<and>
   (if score s > high_score s
    then save_high_score (python w) (store w) (score s) = Inr (store w')
    else store w' = store w)"
  by (auto simp: update_high_score_def Let_def split: if_splits sum.splits)

lemma game_over_check_no_collision:
  "check_collision (snake_body s) = Inr False \<Longrightarrow>
   game_over_check w s = Some (Inr (Continue (s, w)))"
  by (simp add: game_over_check_def)

lemma game_over_check_collision:
  "check_collision (snake_body s) = Inr True \<Longrightarrow> \<not> game_goes_on (game_over_check w s)"
  by (auto simp: game_over_check_def game_goes_on_def
      split: sum.splits option.splits action.splits prod.splits)

lemma game_over_check_Inr:
  assumes "game_over_check w s = Some (Inr res)"
  shows "(check_collision (snake_body s) = Inr False \<and> res = Continue (s, w)) \<or>
         (check_collision (snake_body s) = Inr True \<and>
          (\<exists>s1 w1 ev. update_high_score w s = Inr (s1, w1) \<and>
             ((game_over_screen (events w1) = Some (ACTION_QUIT, ev) \<and>
               res = Exit (w1\<lparr>events := ev\<rparr>)) \<or>
              (game_over_screen (events w1) = Some (ACTION_RESTART, ev) \<and>
               res = Continue (s1\<lparr>running := False\<rparr>, w1\<lparr>events := ev\<rparr>)))))"
proof (cases "check_collision (snake_body s)")
  case (Inl e)
  with assms show ?thesis by (simp add: game_over_check_def)
next
  case (Inr b)
  show ?thesis
  proof (cases b)
    case False
    with Inr assms show ?thesis by (auto simp: game_over_check_def)
  next
    case True
    with Inr assms show ?thesis
      by (auto simp: game_over_check_def split: sum.splits option.splits action.splits)
  qed
qed

lemma game_over_check_Continue:
  assumes "game_over_check w s = Some (Inr (Continue (s', w')))"
  shows "(check_collision (snake_body s) = Inr False \<and> s' = s \<and> w' = w) \<or>
         (check_collision (snake_body s) = Inr True \<and>
          s' = s\<lparr>high_score := max (high_score s) (score s), running := False\<rparr> \<and>
          rng w' = rng w \<and> clock w' = clock w \<and> python w' = python w \<and>
          (if score s > high_score s
           then save_high_score (python w) (store w) (score s) = Inr (store w')
           else store w' = store w))"
proof -
  from game_over_check_Inr [OF assms]
  consider "check_collision (snake_body s) = Inr False" "s' = s" "w' = w"
    | s1 w1 ev where "check_collision (snake_body s) = Inr True"
        "update_high_score w s = Inr (s1, w1)"
        "s' = s1\<lparr>running := False\<rparr>" "w' = w1\<lparr>events := ev\<rparr>"
    by auto
  then show ?thesis
  proof cases
    case 1
    then show ?thesis by simp
  next
    case 2
    from update_high_score_Inr [OF 2(2)] 2(1,3,4) show ?thesis by (simp split: if_splits)
  qed
qed




lemma handle_events_paused:
  "paused s \<Longrightarrow> QUIT \<notin> set es \<Longrightarrow> KEYDOWN K_SPACE \<notin> set es \<Longrightarrow> handle_events es s = Continue s"
proof (induction es)
  case Nil
  then show ?case by simp
next
  case (Cons e es)
  then have "handle_event e s = Continue s" by (cases e) auto
  with Cons show ?case by simp
qed

lemma tick_Some_Inr:
  "tick w s = Some (Inr res) \<longleftrightarrow>
   (\<exists>s1 w1. update w s = Some (Inr (s1, w1)) \<and> game_over_check w1 s1 = Some (Inr res))"
  by (simp add: tick_def and_then_Some_Inr split_paired_Ex)




lemma frames_paused:
  "paused s \<Longrightarrow> running s \<Longrightarrow>
   \<forall>i<n. QUIT \<notin> set (events w !! i) \<and> KEYDOWN K_SPACE \<notin> set (events w !! i) \<Longrightarrow>
   frames n w s = Some (Inr (Continue (s, w\<lparr>events := sdrop n (events w)\<rparr>)))"
proof (induction n arbitrary: w)
  case 0
  then show ?case by simp
next
  case (Suc n)
  from Suc.prems(3) have "QUIT \<notin> set (shd (events w)) \<and> KEYDOWN K_SPACE \<notin> set (shd (events w))"
    by (metis snth.simps(1) zero_less_Suc)
  with Suc.prems(1) have "handle_events (shd (events w)) s = Continue s"
    by (simp add: handle_events_paused)
  with Suc.prems(1) have f: "frame w s = Some (Inr (Continue (s, w\<lparr>events := stl (events w)\<rparr>)))"
    by (simp add: frame_def)
  have "\<forall>i<n. QUIT \<notin> set (events (w\<lparr>events := stl (events w)\<rparr>) !! i) \<and>
              KEYDOWN K_SPACE \<notin> set (events (w\<lparr>events := stl (events w)\<rparr>) !! i)"
    using Suc.prems(3) by (metis Suc_less_eq snth.simps(2) world.select_convs(3) world.surjective world.update_convs(3))
  from Suc.IH [OF Suc.prems(1,2) this] f Suc.prems(2) show ?case by simp
qed

text \<open>
  The steps return, for a snake with a head, when the random source keeps drawing
  cells off the snake.
\<close>

lemma advance_returns:
  assumes "snake_body s = h # t"
    and "\<exists>n. drawn_cell (rng w) n \<notin> set (new_head h (direction s) # h # t)"
  shows "\<exists>s1 w1 k. advance w s = Some (Inr (s1, w1)) \<and> rng w1 = sdrop k (rng w) \<and>
           snake_body s1 \<noteq> [] \<and> set (snake_body s1) \<subseteq> set (new_head h (direction s) # h # t)"
proof (cases "new_head h (direction s) = food_pos s")
  case True
  from assms(2) True obtain n where "drawn_cell (rng w) n \<notin> set (food_pos s # h # t)" by auto
  from create_food_returns [OF this] obtain f r where
    c: "create_food (food_pos s # h # t) (rng w) = Some (f, r)" by blast
  from create_food_Some_first [OF c] obtain m where "r = sdrop (2 * Suc m) (rng w)" by blast
  then obtain k where k: "r = sdrop k (rng w)" by blast
  have "advance w s =
      Some (Inr (s\<lparr>snake_body := food_pos s # h # t, score := score s + 1, food_pos := f\<rparr>,
                 w\<lparr>rng := r\<rparr>))"
    using assms(1) True c by (simp add: advance_food)
  moreover have "rng (w\<lparr>rng := r\<rparr>) = sdrop k (rng w)"
    using k by simp
  moreover have "snake_body (s\<lparr>snake_body := food_pos s # h # t, score := score s + 1, food_pos := f\<rparr>) \<noteq> []"
    by simp
  moreover have "set (snake_body (s\<lparr>snake_body := food_pos s # h # t, score := score s + 1, food_pos := f\<rparr>))
      \<subseteq> set (new_head h (direction s) # h # t)"
    using True by simp
  ultimately show ?thesis by blast
next
  case False
  have "set (butlast (h # t)) \<subseteq> set (h # t)"
    by (meson in_set_butlastD subsetI)
  then have "set (new_head h (direction s) # butlast (h # t)) \<subseteq> set (new_head h (direction s) # h # t)"
    by auto
  moreover have "rng w = sdrop 0 (rng w)" by simp
  ultimately show ?thesis
    using assms(1) False unfolding advance_no_food [OF assms(1) False]
    by (metis (no_types, lifting) list.distinct(1) state.select_convs(2) state.surjective state.update_convs(2))
qed

lemma powerup_collision_returns:
  "snake_body s \<noteq> [] \<Longrightarrow> \<exists>s' w'. powerup_collision w s = Some (Inr (s', w'))"
  by (auto simp: powerup_collision_def time_time_def split: option.splits list.splits)

lemma powerup_expiry_returns:
  "\<exists>s' w'. powerup_expiry w s = Some (Inr (s', w'))"
  by (auto simp: powerup_expiry_def time_time_def)

lemma powerup_spawn_returns:
  assumes "\<exists>n. drawn_cell (rng w) n \<notin> set (snake_body s)"
  shows "\<exists>s' w'. powerup_spawn w s = Some (Inr (s', w'))"
proof -
  from assms obtain n where "drawn_cell (rng w) n \<notin> set (snake_body s)" ..
  from create_powerup_returns [OF this] obtain p r where
    "create_powerup (snake_body s) (rng w) = Some (p, r)" by blast
  then show ?thesis
    by (auto simp: powerup_spawn_def time_time_def)
qed

lemma update_returns:
  assumes "snake_body s = h # t"
    and "\<forall>k. \<exists>n. drawn_cell (sdrop k (rng w)) n \<notin> set (new_head h (direction s) # h # t)"
  shows "\<exists>s1 w1. update w s = Some (Inr (s1, w1))"
proof -
  from assms(2) have "\<exists>n. drawn_cell (sdrop 0 (rng w)) n \<notin> set (new_head h (direction s) # h # t)"
    by blast
  then have "\<exists>n. drawn_cell (rng w) n \<notin> set (new_head h (direction s) # h # t)" by simp
  from advance_returns [OF assms(1) this] obtain sa wa k where
    a: "advance w s = Some (Inr (sa, wa))" and r: "rng wa = sdrop k (rng w)" and
    ne: "snake_body sa \<noteq> []" and
    sub: "set (snake_body sa) \<subseteq> set (new_head h (direction s) # h # t)"
    by blast
  from powerup_collision_returns [OF ne] obtain sb wb where
    b: "powerup_collision wa sa = Some (Inr (sb, wb))" by blast
  from powerup_expiry_returns obtain sc wc where
    c: "powerup_expiry wb sb = Some (Inr (sc, wc))" by blast
  from powerup_collision_keeps [OF b] powerup_expiry_keeps [OF c]
  have k: "snake_body sc = snake_body sa" "rng wc = rng wa" by simp_all
  from assms(2) obtain n where "drawn_cell (sdrop k (rng w)) n \<notin> set (new_head h (direction s) # h # t)"
    by blast
  with sub k r have "\<exists>n. drawn_cell (rng wc) n \<notin> set (snake_body sc)" by auto
  from powerup_spawn_returns [OF this] obtain sd wd where
    d: "powerup_spawn wc sc = Some (Inr (sd, wd))" by blast
  from a b c d have "update w s = Some (Inr (sd, wd))"
    unfolding update_Some_Inr by blast
  then show ?thesis by blast
qed

subsection \<open>Reading and writing integers\<close>






















subsection \<open>Game over, the file and the pause\<close>







lemma handle_events_append:
  "handle_events (es @ es') s =
     (case handle_events es s of Exit u \<Rightarrow> Exit u | Continue s' \<Rightarrow> handle_events es' s')"
  by (induction es arbitrary: s) (auto split: ctl.splits)

lemma frame_resume:
  assumes "paused s" and "QUIT \<notin> set es" and "KEYDOWN K_SPACE \<notin> set es"
    and "shd (events w) = es @ [KEYDOWN K_SPACE]"
  shows "frame w s = tick (w\<lparr>events := stl (events w)\<rparr>) (s\<lparr>paused := False\<rparr>)"
proof -
  from assms(1,2,3) have "handle_events es s = Continue s" by (rule handle_events_paused)
  with assms(1) have "handle_events (es @ [KEYDOWN K_SPACE]) s = Continue (s\<lparr>paused := False\<rparr>)"
    by (simp add: handle_events_append)
  with assms(4) show ?thesis by (simp add: frame_def)
qed

lemma frame_pause:
  "\<not> paused s \<Longrightarrow> shd (events w) = [KEYDOWN K_SPACE] \<Longrightarrow>
   frame w s = Some (Inr (Continue (s\<lparr>paused := True\<rparr>, w\<lparr>events := stl (events w)\<rparr>)))"
  by (simp add: frame_def)

lemma frames_one: "running s \<Longrightarrow> frames (Suc 0) w s = frame w s"
  by (auto split: option.splits sum.splits ctl.splits)

lemma frames_resume:
  assumes "paused s" and "running s"
    and "\<forall>i<n. QUIT \<notin> set (events w !! i) \<and> KEYDOWN K_SPACE \<notin> set (events w !! i)"
    and "QUIT \<notin> set es" and "KEYDOWN K_SPACE \<notin> set es"
    and "events w !! n = es @ [KEYDOWN K_SPACE]"
  shows "frames (Suc n) w s = tick (w\<lparr>events := sdrop (Suc n) (events w)\<rparr>) (s\<lparr>paused := False\<rparr>)"
  using assms(3,6)
proof (induction n arbitrary: w)
  case 0
  then have "shd (events w) = es @ [KEYDOWN K_SPACE]" by simp
  then have "frame w s = tick (w\<lparr>events := stl (events w)\<rparr>) (s\<lparr>paused := False\<rparr>)"
    by (rule frame_resume [OF assms(1,4,5)])
  moreover have "frames (Suc 0) w s = frame w s" using assms(2) by (rule frames_one)
  ultimately show ?case by (simp only: sdrop.simps)
next
  case (Suc n)
  let ?w = "w\<lparr>events := stl (events w)\<rparr>"
  from Suc.prems(1) have "QUIT \<notin> set (shd (events w)) \<and> KEYDOWN K_SPACE \<notin> set (shd (events w))"
    by (metis snth.simps(1) zero_less_Suc)
  with assms(1) have "handle_events (shd (events w)) s = Continue s"
    by (simp add: handle_events_paused)
  with assms(1) have f: "frame w s = Some (Inr (Continue (s, ?w)))"
    by (simp add: frame_def)
  have q: "\<forall>i<n. QUIT \<notin> set (events ?w !! i) \<and> KEYDOWN K_SPACE \<notin> set (events ?w !! i)"
  proof (intro allI impI)
    fix i assume "i < n"
    then have "Suc i < Suc n" by simp
    with Suc.prems(1) have "QUIT \<notin> set (events w !! Suc i) \<and> KEYDOWN K_SPACE \<notin> set (events w !! Suc i)"
      by blast
    then show "QUIT \<notin> set (events ?w !! i) \<and> KEYDOWN K_SPACE \<notin> set (events ?w !! i)" by simp
  qed
  have e: "events ?w !! n = es @ [KEYDOWN K_SPACE]" using Suc.prems(2) by simp
  from Suc.IH [OF q e] have "frames (Suc n) ?w s =
      tick (?w\<lparr>events := sdrop (Suc n) (events ?w)\<rparr>) (s\<lparr>paused := False\<rparr>)" .
  moreover have "frames (Suc (Suc n)) w s = frames (Suc n) ?w s"
    using f assms(2) by simp
  ultimately show ?case by simp
qed

section \<open>The claims\<close>

subsection \<open>Placement and a full grid\<close>

text \<open>
  Claim C2, amended. \<^verbatim>\<open>create_food\<close> and \<^verbatim>\<open>create_powerup\<close> return exactly when
  some pass of their loop draws a cell that is not on the snake, and what they return
  then is the first such cell, with the random source as it is after that pass. When
  the snake covers every cell of the grid they never return: the program has no check
  for a full grid and signals no failure.
\<close>

theorem placement_returns_iff_free_cell_drawn:
  "(create_food body r \<noteq> None \<longleftrightarrow> (\<exists>n. drawn_cell r n \<notin> set body)) \<and>
   (create_powerup body r \<noteq> None \<longleftrightarrow> (\<exists>n. drawn_cell r n \<notin> set body)) \<and>
   ((\<forall>c. in_grid c \<longrightarrow> c \<in> set body) \<longrightarrow>
      create_food body r = None \<and> create_powerup body r = None) \<and>
   (\<forall>c r'. create_food body r = Some (c, r') \<longrightarrow>
      (\<exists>n. c = drawn_cell r n \<and> r' = sdrop (2 * Suc n) r \<and> drawn_cell r n \<notin> set body \<and>
           (\<forall>m<n. drawn_cell r m \<in> set body))) \<and>
   (\<forall>c r'. create_powerup body r = Some (c, r') \<longrightarrow>
      (\<exists>n. c = drawn_cell r n \<and> r' = sdrop (2 * Suc n) r \<and> drawn_cell r n \<notin> set body \<and>
           (\<forall>m<n. drawn_cell r m \<in> set body))) \<and>
   (\<forall>n. (\<forall>m<n. drawn_cell r m \<in> set body) \<and> drawn_cell r n \<notin> set body \<longrightarrow>
      create_food body r = Some (drawn_cell r n, sdrop (2 * Suc n) r) \<and>
      create_powerup body r = Some (drawn_cell r n, sdrop (2 * Suc n) r))"
proof (intro conjI impI allI)
  show "create_food body r \<noteq> None \<longleftrightarrow> (\<exists>n. drawn_cell r n \<notin> set body)"
    by (simp add: create_food_None_iff)
  show "create_powerup body r \<noteq> None \<longleftrightarrow> (\<exists>n. drawn_cell r n \<notin> set body)"
    by (simp add: create_powerup_None_iff)
  show "create_food body r = None" if "\<forall>c. in_grid c \<longrightarrow> c \<in> set body"
    using that by (rule create_food_full_grid)
  show "create_powerup body r = None" if "\<forall>c. in_grid c \<longrightarrow> c \<in> set body"
    using that by (rule create_powerup_full_grid)
  show "\<exists>n. c = drawn_cell r n \<and> r' = sdrop (2 * Suc n) r \<and> drawn_cell r n \<notin> set body \<and>
           (\<forall>m<n. drawn_cell r m \<in> set body)"
    if "create_food body r = Some (c, r')" for c r'
    using that by (rule create_food_Some_first)
  show "\<exists>n. c = drawn_cell r n \<and> r' = sdrop (2 * Suc n) r \<and> drawn_cell r n \<notin> set body \<and>
           (\<forall>m<n. drawn_cell r m \<in> set body)"
    if "create_powerup body r = Some (c, r')" for c r'
    using that by (rule create_powerup_Some_first)
  show "create_food body r = Some (drawn_cell r n, sdrop (2 * Suc n) r)"
    if "(\<forall>m<n. drawn_cell r m \<in> set body) \<and> drawn_cell r n \<notin> set body" for n
    using that create_food_first_free by blast
  show "create_powerup body r = Some (drawn_cell r n, sdrop (2 * Suc n) r)"
    if "(\<forall>m<n. drawn_cell r m \<in> set body) \<and> drawn_cell r n \<notin> set body" for n
    using that create_powerup_first_free by blast
qed

text \<open>
  On the full grid neither loop returns. On the grown snake of the example the first
  pass draws (11, 10), which is on the snake, and the second draws (3, 4), which is
  returned with the random source after four numbers.
\<close>

theorem placement_returns_iff_free_cell_drawn_witness:
  "create_food all_cells (sconst 7) = None \<and> create_powerup all_cells (sconst 7) = None \<and>
   drawn_cell (rng example_world) 0 = (11, 10) \<and>
   drawn_cell (rng example_world) (Suc 0) = (3, 4) \<and>
   create_food [(11, 10), (10, 10)] (rng example_world) = Some ((3, 4), sconst 0) \<and>
   create_powerup [(11, 10), (10, 10)] (rng example_world) = Some ((3, 4), sconst 0)"
proof -
  have full: "\<forall>c. in_grid c \<longrightarrow> c \<in> set all_cells"
    by (simp add: set_all_cells)
  have d0: "drawn_cell (rng example_world) 0 = (11, 10)"
    and d1: "drawn_cell (rng example_world) (Suc 0) = (3, 4)"
    by (simp_all add: drawn_cell_Suc drawn_cell_0 draw_eq example_world_def GRID_WIDTH_eq GRID_HEIGHT_eq)
  have r: "sdrop (2 * Suc (Suc 0)) (rng example_world) = sconst 0"
    by (simp add: example_world_def eval_nat_numeral)
  have first: "(\<forall>m<Suc 0. drawn_cell (rng example_world) m \<in> set [(11, 10), (10, 10)]) \<and>
      drawn_cell (rng example_world) (Suc 0) \<notin> set [(11, 10), (10, 10)]"
    using d0 d1 by simp
  from placement_returns_iff_free_cell_drawn [of all_cells "sconst 7"] full
  have "create_food all_cells (sconst 7) = None \<and> create_powerup all_cells (sconst 7) = None"
    by blast
  moreover
  from placement_returns_iff_free_cell_drawn [of "[(11, 10), (10, 10)]" "rng example_world"] first
  have "create_food [(11, 10), (10, 10)] (rng example_world) =
          Some (drawn_cell (rng example_world) (Suc 0), sdrop (2 * Suc (Suc 0)) (rng example_world)) \<and>
        create_powerup [(11, 10), (10, 10)] (rng example_world) =
          Some (drawn_cell (rng example_world) (Suc 0), sdrop (2 * Suc (Suc 0)) (rng example_world))"
    by blast
  ultimately show ?thesis
    unfolding d1 r using d0 d1 by simp
qed

text \<open>
  With the snake on every cell of the grid, \<^verbatim>\<open>create_food\<close> does not terminate and
  raises nothing.
\<close>

theorem create_food_full_grid_never_returns:
  "create_food all_cells (sconst 0) = None"
  by (rule create_food_full_grid) (simp add: set_all_cells)

subsection \<open>Loading the high score\<close>





subsection \<open>Direction commands\<close>

text \<open>
  Claim C6. Whatever the stored direction is, the key of the opposite direction leaves
  it (and all of the state) as it was, paused or not.
\<close>

theorem reversal_is_dropped:
  "handle_event (KEYDOWN (key_of (opposite (direction s)))) s = Continue s"
  by (cases "direction s") simp_all

text \<open>Heading right, the left key changes nothing.\<close>

theorem reversal_is_dropped_witness:
  "direction example_state = RIGHT \<and> handle_event (KEYDOWN K_LEFT) example_state = Continue example_state"
  using reversal_is_dropped [of example_state]
  by (simp add: example_state_def)

text \<open>
  Claim C10. The events of one batch are handled one after the other, each against the
  direction the earlier ones have left. So when the game is not paused, two keys of one
  batch turn the snake around before it has moved: UP and then LEFT while heading right
  leave LEFT stored, and for every direction there is such a pair of keys.
\<close>

theorem batch_can_reverse:
  "\<not> paused s \<longrightarrow>
     (\<forall>e es. handle_events (e # es) s =
        (case handle_event e s of Exit u \<Rightarrow> Exit u | Continue s' \<Rightarrow> handle_events es s')) \<and>
     (direction s = RIGHT \<longrightarrow>
        handle_events [KEYDOWN K_UP, KEYDOWN K_LEFT] s = Continue (s\<lparr>direction := LEFT\<rparr>)) \<and>
     (\<exists>k. handle_events [KEYDOWN k, KEYDOWN (key_of (opposite (direction s)))] s =
        Continue (s\<lparr>direction := opposite (direction s)\<rparr>))"
proof (intro impI conjI)
  assume np: "\<not> paused s"
  show "\<forall>e es. handle_events (e # es) s =
        (case handle_event e s of Exit u \<Rightarrow> Exit u | Continue s' \<Rightarrow> handle_events es s')"
    by simp
  show "handle_events [KEYDOWN K_UP, KEYDOWN K_LEFT] s = Continue (s\<lparr>direction := LEFT\<rparr>)"
    if "direction s = RIGHT"
    using np that by simp
  show "\<exists>k. handle_events [KEYDOWN k, KEYDOWN (key_of (opposite (direction s)))] s =
        Continue (s\<lparr>direction := opposite (direction s)\<rparr>)"
  proof (cases "direction s")
    case UP
    with np have "handle_events [KEYDOWN K_LEFT, KEYDOWN (key_of (opposite (direction s)))] s =
        Continue (s\<lparr>direction := opposite (direction s)\<rparr>)" by simp
    then show ?thesis ..
  next
    case DOWN
    with np have "handle_events [KEYDOWN K_LEFT, KEYDOWN (key_of (opposite (direction s)))] s =
        Continue (s\<lparr>direction := opposite (direction s)\<rparr>)" by simp
    then show ?thesis ..
  next
    case LEFT
    with np have "handle_events [KEYDOWN K_UP, KEYDOWN (key_of (opposite (direction s)))] s =
        Continue (s\<lparr>direction := opposite (direction s)\<rparr>)" by simp
    then show ?thesis ..
  next
    case RIGHT
    with np have "handle_events [KEYDOWN K_UP, KEYDOWN (key_of (opposite (direction s)))] s =
        Continue (s\<lparr>direction := opposite (direction s)\<rparr>)" by simp
    then show ?thesis ..
  qed
qed

lemma example_reversal_run:
  "frames (Suc 0) reversal_world two_cell_state =
     Some (Inr (Continue (two_cell_state\<lparr>snake_body := [(11, 10), (10, 10)]\<rparr>,
        example_world\<lparr>events := [KEYDOWN K_UP, KEYDOWN K_LEFT] ## sconst []\<rparr>))) \<and>
   frames (Suc (Suc 0)) reversal_world two_cell_state =
     Some (Inr (Continue (two_cell_state\<lparr>snake_body := [(10, 10), (11, 10)], direction := LEFT\<rparr>,
        example_world)))"
  by (simp add: frame_def tick_def update_def and_then_def advance_def powerup_collision_def
      powerup_expiry_def powerup_spawn_def time_time_def game_over_check_def
      two_cell_state_def reversal_world_def example_state_def example_world_def
      POWERUP_SPAWN_INTERVAL_def GRID_WIDTH_eq GRID_HEIGHT_eq)

text \<open>
  Heading right, the batch UP, LEFT leaves the snake heading left. In a run of two
  passes the head goes right from (10, 10) to (11, 10) in the first, and after that
  batch back to (10, 10) in the second.
\<close>

theorem batch_can_reverse_witness:
  "\<not> paused two_cell_state \<and> direction two_cell_state = RIGHT \<and>
   handle_events [KEYDOWN K_UP, KEYDOWN K_LEFT] two_cell_state =
     Continue (two_cell_state\<lparr>direction := LEFT\<rparr>) \<and>
   frames (Suc 0) reversal_world two_cell_state =
     Some (Inr (Continue (two_cell_state\<lparr>snake_body := [(11, 10), (10, 10)]\<rparr>,
        example_world\<lparr>events := [KEYDOWN K_UP, KEYDOWN K_LEFT] ## sconst []\<rparr>))) \<and>
   frames (Suc (Suc 0)) reversal_world two_cell_state =
     Some (Inr (Continue (two_cell_state\<lparr>snake_body := [(10, 10), (11, 10)], direction := LEFT\<rparr>,
        example_world)))"
proof -
  have "\<not> paused two_cell_state" "direction two_cell_state = RIGHT"
    by (simp_all add: two_cell_state_def example_state_def)
  with batch_can_reverse [of two_cell_state] example_reversal_run show ?thesis by blast
qed

subsection \<open>Collision and game over\<close>

lemma update_body:
  assumes "update w s = Some (Inr (s1, w1))" and "snake_body s = h # t"
  shows "(new_head h (direction s) = food_pos s \<longrightarrow>
            snake_body s1 = food_pos s # h # t \<and> score s1 = score s + 1 \<and>
            food_pos s1 \<notin> set (snake_body s1)) \<and>
         (new_head h (direction s) \<noteq> food_pos s \<longrightarrow>
            snake_body s1 = new_head h (direction s) # butlast (h # t) \<and> score s1 = score s \<and>
            food_pos s1 = food_pos s) \<and>
         running s1 = running s \<and> high_score s1 = high_score s \<and> store w1 = store w"
proof -
  from update_keeps [OF assms(1)] obtain s0 w0 where
    a: "advance w s = Some (Inr (s0, w0))" and
    k: "snake_body s1 = snake_body s0" "food_pos s1 = food_pos s0" "score s1 = score s0"
       "high_score s1 = high_score s0" "running s1 = running s0" "store w1 = store w0"
    by blast
  from advance_keeps [OF a] k have rest: "running s1 = running s \<and> high_score s1 = high_score s \<and> store w1 = store w"
    by simp
  show ?thesis
  proof (cases "new_head h (direction s) = food_pos s")
    case True
    with a assms(2) obtain f r where
      c: "create_food (food_pos s # h # t) (rng w) = Some (f, r)" and
      s0: "s0 = s\<lparr>snake_body := food_pos s # h # t, score := score s + 1, food_pos := f\<rparr>"
      by (auto simp: advance_food split: option.splits)
    from create_food_sound [OF c] s0 k True rest show ?thesis by simp
  next
    case False
    with a assms(2) have "s0 = s\<lparr>snake_body := new_head h (direction s) # butlast (h # t)\<rparr>"
      by (simp add: advance_no_food)
    with k False rest show ?thesis by simp
  qed
qed

text \<open>
  Claim C1. Take a tick of a running game whose moving, eating and power-up steps
  return. The body after them is the new head in front of the old body, whole when the
  head is on the food and without its last cell otherwise. The game goes on after the
  tick if and only if the new head is inside the grid and is none of the cells behind
  it in that body, and then the tick returns that state as it is; otherwise the tick
  takes the game-over branch. In particular a snake that does not grow and steps onto
  the cell its tail has just left goes on.
\<close>

theorem game_over_iff_collision:
  assumes "update w s = Some (Inr (s1, w1))" and "snake_body s = h # t" and "running s"
  shows "snake_body s1 =
           new_head h (direction s) #
             (if new_head h (direction s) = food_pos s then h # t else butlast (h # t)) \<and>
         (game_goes_on (tick w s) \<longleftrightarrow>
            \<not> (fst (new_head h (direction s)) < 0 \<or> fst (new_head h (direction s)) \<ge> GRID_WIDTH \<or>
               snd (new_head h (direction s)) < 0 \<or> snd (new_head h (direction s)) \<ge> GRID_HEIGHT \<or>
               new_head h (direction s) \<in> set (tl (snake_body s1)))) \<and>
         (game_goes_on (tick w s) \<longrightarrow> tick w s = Some (Inr (Continue (s1, w1)))) \<and>
         (new_head h (direction s) \<noteq> food_pos s \<and> new_head h (direction s) = last (h # t) \<and>
          in_grid (new_head h (direction s)) \<and> new_head h (direction s) \<notin> set (butlast (h # t))
            \<longrightarrow> game_goes_on (tick w s))"
proof -
  define nh where "nh = new_head h (direction s)"
  from update_body [OF assms(1,2)]
  have body: "snake_body s1 = nh # (if nh = food_pos s then h # t else butlast (h # t))"
    and run: "running s1"
    using assms(3) by (auto simp: nh_def)
  have t: "tick w s = game_over_check w1 s1"
    using assms(1) by (simp add: tick_def and_then_def)
  have coll: "check_collision (snake_body s1) = Inr (\<not> in_grid nh \<or> nh \<in> set (tl (snake_body s1)))"
    unfolding body check_collision_Cons by simp
  have iff: "game_goes_on (tick w s) \<longleftrightarrow> \<not> (\<not> in_grid nh \<or> nh \<in> set (tl (snake_body s1)))"
  proof (cases "\<not> in_grid nh \<or> nh \<in> set (tl (snake_body s1))")
    case True
    with coll have "check_collision (snake_body s1) = Inr True" by simp
    then have "\<not> game_goes_on (game_over_check w1 s1)" by (rule game_over_check_collision)
    with True t show ?thesis by simp
  next
    case False
    with coll have "check_collision (snake_body s1) = Inr False" by simp
    then have "game_over_check w1 s1 = Some (Inr (Continue (s1, w1)))"
      by (rule game_over_check_no_collision)
    with False t run show ?thesis by (simp add: game_goes_on_def)
  qed
  have cont: "tick w s = Some (Inr (Continue (s1, w1)))" if "game_goes_on (tick w s)"
  proof -
    from that iff coll have "check_collision (snake_body s1) = Inr False" by simp
    then show ?thesis unfolding t by (rule game_over_check_no_collision)
  qed
  have own_tail: "game_goes_on (tick w s)"
    if "nh \<noteq> food_pos s" "in_grid nh" "nh \<notin> set (butlast (h # t))"
    using that iff body by simp
  have grid: "\<not> in_grid nh \<longleftrightarrow>
      (fst nh < 0 \<or> fst nh \<ge> GRID_WIDTH \<or> snd nh < 0 \<or> snd nh \<ge> GRID_HEIGHT)"
    by (auto simp: in_grid_def)
  have iff': "game_goes_on (tick w s) \<longleftrightarrow>
      \<not> (fst nh < 0 \<or> fst nh \<ge> GRID_WIDTH \<or> snd nh < 0 \<or> snd nh \<ge> GRID_HEIGHT \<or>
         nh \<in> set (tl (snake_body s1)))"
    using iff grid by blast
  from body iff' cont own_tail show ?thesis
    unfolding nh_def by blast
qed

lemma example_coiled_update:
  "update example_world coiled_state =
     Some (Inr (coiled_state\<lparr>snake_body := [(6, 5), (5, 5), (5, 6), (6, 6)]\<rparr>, example_world))"
  by (simp add: update_def and_then_def advance_def powerup_collision_def powerup_expiry_def
      powerup_spawn_def time_time_def coiled_state_def example_state_def example_world_def
      POWERUP_SPAWN_INTERVAL_def)

lemma example_wall_update:
  "update restart_world wall_state =
     Some (Inr (wall_state\<lparr>snake_body := [(40, 15)]\<rparr>, restart_world))"
  by (simp add: update_def and_then_def advance_def powerup_collision_def powerup_expiry_def
      powerup_spawn_def time_time_def wall_state_def example_state_def example_world_def
      restart_world_def POWERUP_SPAWN_INTERVAL_def)

text \<open>
  The coiled snake steps onto the cell of its tail and the game goes on; the snake at
  the wall steps out of the grid and the game is over.
\<close>

theorem game_over_iff_collision_witness:
  "update example_world coiled_state =
     Some (Inr (coiled_state\<lparr>snake_body := [(6, 5), (5, 5), (5, 6), (6, 6)]\<rparr>, example_world)) \<and>
   snake_body coiled_state = [(5, 5), (5, 6), (6, 6), (6, 5)] \<and>
   new_head (5, 5) (direction coiled_state) = last (snake_body coiled_state) \<and>
   running coiled_state \<and>
   game_goes_on (tick example_world coiled_state) \<and>
   update restart_world wall_state =
     Some (Inr (wall_state\<lparr>snake_body := [(40, 15)]\<rparr>, restart_world)) \<and>
   snake_body wall_state = [(39, 15)] \<and> running wall_state \<and>
   \<not> game_goes_on (tick restart_world wall_state)"
proof -
  have c: "snake_body coiled_state = (5, 5) # [(5, 6), (6, 6), (6, 5)]" "running coiled_state"
    "direction coiled_state = RIGHT" "food_pos coiled_state = (0, 0)"
    by (simp_all add: coiled_state_def example_state_def)
  have v: "snake_body wall_state = (39, 15) # []" "running wall_state"
    "direction wall_state = RIGHT" "food_pos wall_state = (0, 0)"
    by (simp_all add: wall_state_def example_state_def)
  from game_over_iff_collision [OF example_coiled_update c(1,2)]
  have "game_goes_on (tick example_world coiled_state)"
    by (simp add: c new_head_def in_grid_def GRID_WIDTH_eq GRID_HEIGHT_eq)
  moreover from game_over_iff_collision [OF example_wall_update v(1,2)]
  have "\<not> game_goes_on (tick restart_world wall_state)"
    by (simp add: v new_head_def GRID_WIDTH_eq GRID_HEIGHT_eq)
  ultimately show ?thesis
    using example_coiled_update example_wall_update c v by (simp add: new_head_def)
qed

subsection \<open>Eating\<close>

lemma tick_body:
  assumes "tick w s = Some (Inr (Continue (s', w')))"
  shows "\<exists>s1 w1. update w s = Some (Inr (s1, w1)) \<and> snake_body s' = snake_body s1 \<and>
           score s' = score s1 \<and> food_pos s' = food_pos s1 \<and> powerup_pos s' = powerup_pos s1"
proof -
  from assms obtain s1 w1 where u: "update w s = Some (Inr (s1, w1))"
    and g: "game_over_check w1 s1 = Some (Inr (Continue (s', w')))"
    unfolding tick_Some_Inr by blast
  from game_over_check_Continue [OF g] u show ?thesis by auto
qed

lemma example_create_food:
  "create_food [(11, 10), (10, 10)] (rng example_world) = Some ((3, 4), sconst 0)"
  by (subst create_food_draw, simp add: draw_eq example_world_def GRID_WIDTH_eq GRID_HEIGHT_eq)
     (subst create_food_draw, simp add: draw_eq example_world_def GRID_WIDTH_eq GRID_HEIGHT_eq)

lemma example_eat_update:
  "update example_world example_state =
     Some (Inr (example_state\<lparr>snake_body := [(11, 10), (10, 10)], score := 1, food_pos := (3, 4)\<rparr>,
                example_world\<lparr>rng := sconst 0\<rparr>))"
proof -
  have "advance example_world example_state =
     Some (Inr (example_state\<lparr>snake_body := [(11, 10), (10, 10)], score := 1, food_pos := (3, 4)\<rparr>,
                example_world\<lparr>rng := sconst 0\<rparr>))"
    using example_create_food
    by (simp add: advance_def example_state_def)
  then show ?thesis
    by (simp add: update_def and_then_def powerup_collision_def powerup_expiry_def
      powerup_spawn_def time_time_def example_state_def example_world_def
      POWERUP_SPAWN_INTERVAL_def)
qed

text \<open>
  Claim C3. For a snake with a head: when the new head is not on the food, the move
  returns with the body as long as before and the score and the food as they were. When
  it is on the food and some pass of the placement draws a free cell, the move returns
  with the body one cell longer, the score one higher and the food on another cell. The
  same holds for the state at the end of every tick that returns, and the steps of the
  tick do return when the random source keeps drawing cells off the snake.
\<close>

theorem eating_grows_and_scores:
  assumes "snake_body s = h # t"
  shows "(new_head h (direction s) \<noteq> food_pos s \<longrightarrow>
           (\<exists>s1. advance w s = Some (Inr (s1, w)) \<and>
                 length (snake_body s1) = length (snake_body s) \<and> score s1 = score s \<and>
                 food_pos s1 = food_pos s)) \<and>
         (new_head h (direction s) = food_pos s \<longrightarrow>
           (\<forall>n. drawn_cell (rng w) n \<notin> set (food_pos s # snake_body s) \<longrightarrow>
             (\<exists>s1 w1. advance w s = Some (Inr (s1, w1)) \<and>
                 length (snake_body s1) = length (snake_body s) + 1 \<and> score s1 = score s + 1 \<and>
                 food_pos s1 \<noteq> food_pos s))) \<and>
         (\<forall>s' w'. update w s = Some (Inr (s', w')) \<or> tick w s = Some (Inr (Continue (s', w'))) \<longrightarrow>
            (if new_head h (direction s) = food_pos s
             then length (snake_body s') = length (snake_body s) + 1 \<and> score s' = score s + 1 \<and>
                  food_pos s' \<noteq> food_pos s
             else length (snake_body s') = length (snake_body s) \<and> score s' = score s \<and>
                  food_pos s' = food_pos s)) \<and>
         ((\<forall>k. \<exists>n. drawn_cell (sdrop k (rng w)) n \<notin> set (new_head h (direction s) # h # t)) \<longrightarrow>
            (\<exists>s' w'. update w s = Some (Inr (s', w'))))"
proof (intro conjI impI allI)
  assume "\<forall>k. \<exists>n. drawn_cell (sdrop k (rng w)) n \<notin> set (new_head h (direction s) # h # t)"
  with assms show "\<exists>s' w'. update w s = Some (Inr (s', w'))"
    by (rule update_returns)
next
  assume "new_head h (direction s) \<noteq> food_pos s"
  with assms show "\<exists>s1. advance w s = Some (Inr (s1, w)) \<and>
      length (snake_body s1) = length (snake_body s) \<and> score s1 = score s \<and> food_pos s1 = food_pos s"
    by (simp add: advance_no_food)
next
  fix n
  assume eat: "new_head h (direction s) = food_pos s"
    and free: "drawn_cell (rng w) n \<notin> set (food_pos s # snake_body s)"
  from create_food_returns [OF free] obtain f r where
    c: "create_food (food_pos s # snake_body s) (rng w) = Some (f, r)" and
    f: "f \<notin> set (food_pos s # snake_body s)"
    by blast
  from assms eat c have "advance w s =
      Some (Inr (s\<lparr>snake_body := food_pos s # h # t, score := score s + 1, food_pos := f\<rparr>,
                 w\<lparr>rng := r\<rparr>))"
    by (simp add: advance_food)
  with assms f show "\<exists>s1 w1. advance w s = Some (Inr (s1, w1)) \<and>
      length (snake_body s1) = length (snake_body s) + 1 \<and> score s1 = score s + 1 \<and>
      food_pos s1 \<noteq> food_pos s"
    by auto
next
  fix s' w'
  assume "update w s = Some (Inr (s', w')) \<or> tick w s = Some (Inr (Continue (s', w')))"
  then obtain s1 w1 where u: "update w s = Some (Inr (s1, w1))"
    and k: "snake_body s' = snake_body s1" "score s' = score s1" "food_pos s' = food_pos s1"
    using tick_body by blast
  from update_body [OF u assms] k assms
  show "if new_head h (direction s) = food_pos s
        then length (snake_body s') = length (snake_body s) + 1 \<and> score s' = score s + 1 \<and>
             food_pos s' \<noteq> food_pos s
        else length (snake_body s') = length (snake_body s) \<and> score s' = score s \<and>
             food_pos s' = food_pos s"
    by auto
qed

text \<open>
  The snake of the example eats: two cells, one point, the food moved to (3, 4). The
  coiled snake does not eat: four cells and three points as before.
\<close>

theorem eating_grows_and_scores_witness:
  "snake_body example_state = [(10, 10)] \<and>
   new_head (10, 10) (direction example_state) = food_pos example_state \<and>
   update example_world example_state =
     Some (Inr (example_state\<lparr>snake_body := [(11, 10), (10, 10)], score := 1, food_pos := (3, 4)\<rparr>,
                example_world\<lparr>rng := sconst 0\<rparr>)) \<and>
   length (snake_body (example_state\<lparr>snake_body := [(11, 10), (10, 10)], score := 1, food_pos := (3, 4)\<rparr>))
     = length (snake_body example_state) + 1 \<and>
   score (example_state\<lparr>snake_body := [(11, 10), (10, 10)], score := 1, food_pos := (3, 4)\<rparr>)
     = score example_state + 1 \<and>
   snake_body coiled_state = [(5, 5), (5, 6), (6, 6), (6, 5)] \<and>
   new_head (5, 5) (direction coiled_state) \<noteq> food_pos coiled_state \<and>
   update example_world coiled_state =
     Some (Inr (coiled_state\<lparr>snake_body := [(6, 5), (5, 5), (5, 6), (6, 6)]\<rparr>, example_world)) \<and>
   length (snake_body (coiled_state\<lparr>snake_body := [(6, 5), (5, 5), (5, 6), (6, 6)]\<rparr>))
     = length (snake_body coiled_state) \<and>
   score (coiled_state\<lparr>snake_body := [(6, 5), (5, 5), (5, 6), (6, 6)]\<rparr>) = score coiled_state"
proof -
  have e: "snake_body example_state = (10, 10) # []"
    "new_head (10, 10) (direction example_state) = food_pos example_state"
    by (simp_all add: example_state_def new_head_def)
  have c: "snake_body coiled_state = (5, 5) # [(5, 6), (6, 6), (6, 5)]"
    "new_head (5, 5) (direction coiled_state) \<noteq> food_pos coiled_state"
    by (simp_all add: coiled_state_def example_state_def new_head_def)
  from eating_grows_and_scores [OF e(1), of example_world] e(2) example_eat_update
  have "length (snake_body (example_state\<lparr>snake_body := [(11, 10), (10, 10)], score := 1, food_pos := (3, 4)\<rparr>))
     = length (snake_body example_state) + 1 \<and>
     score (example_state\<lparr>snake_body := [(11, 10), (10, 10)], score := 1, food_pos := (3, 4)\<rparr>)
     = score example_state + 1"
    by (metis (no_types, lifting))
  moreover
  from eating_grows_and_scores [OF c(1), of example_world] c(2) example_coiled_update
  have "length (snake_body (coiled_state\<lparr>snake_body := [(6, 5), (5, 5), (5, 6), (6, 6)]\<rparr>))
     = length (snake_body coiled_state) \<and>
   score (coiled_state\<lparr>snake_body := [(6, 5), (5, 5), (5, 6), (6, 6)]\<rparr>) = score coiled_state"
    by (metis (no_types, lifting))
  ultimately show ?thesis
    using e c example_eat_update example_coiled_update by simp
qed

subsection \<open>Placement off the snake\<close>

lemma init_session_food:
  "init_session w = Some (s, w') \<Longrightarrow> food_pos s \<notin> set (snake_body s) \<and> in_grid (food_pos s)"
  by (auto simp: init_session_def time_time_def dest: create_food_sound split: option.splits)

lemma update_food_moved:
  assumes "update w s = Some (Inr (s', w'))" and "food_pos s' \<noteq> food_pos s"
  shows "food_pos s' \<notin> set (snake_body s')"
proof (cases "snake_body s")
  case Nil
  with assms(1) show ?thesis
    using update_keeps [OF assms(1)] by (simp add: advance_Nil)
next
  case (Cons h t)
  from update_body [OF assms(1) Cons] assms(2) show ?thesis by auto
qed

lemma update_powerup_new:
  assumes "update w s = Some (Inr (s', w'))" and "powerup_pos s' = Some p"
    and "powerup_pos s \<noteq> Some p"
  shows "p \<notin> set (snake_body s')"
proof -
  from assms(1) obtain s1 w1 s2 w2 s3 w3 where
    a: "advance w s = Some (Inr (s1, w1))" and
    b: "powerup_collision w1 s1 = Some (Inr (s2, w2))" and
    c: "powerup_expiry w2 s2 = Some (Inr (s3, w3))" and
    d: "powerup_spawn w3 s3 = Some (Inr (s', w'))"
    unfolding update_Some_Inr by blast
  from advance_keeps [OF a] powerup_collision_keeps [OF b] powerup_expiry_keeps [OF c]
  have "powerup_pos s3 = None \<or> powerup_pos s3 = powerup_pos s" by auto
  with assms(2,3) have "powerup_pos s' \<noteq> powerup_pos s3" by auto
  with powerup_spawn_keeps [OF d] assms(2) show ?thesis by auto
qed

text \<open>
  Claim C7. A cell that \<^verbatim>\<open>create_food\<close> or \<^verbatim>\<open>create_powerup\<close> returns is not on the
  snake body it was given, and they do return one as soon as some pass draws a free
  cell. The food of a new game is off the snake; after the steps of a tick a food that
  has moved and a power-up that has appeared are off the body as it then is, the new
  head and the kept tail included.
\<close>

theorem placement_off_snake:
  "(create_food body r = Some (c, r') \<longrightarrow> c \<notin> set body) \<and>
   (create_powerup body r = Some (c, r') \<longrightarrow> c \<notin> set body) \<and>
   (drawn_cell r n \<notin> set body \<longrightarrow>
      (\<exists>c r'. create_food body r = Some (c, r') \<and> c \<notin> set body) \<and>
      (\<exists>c r'. create_powerup body r = Some (c, r') \<and> c \<notin> set body)) \<and>
   (init_session w = Some (s0, w0) \<longrightarrow> food_pos s0 \<notin> set (snake_body s0)) \<and>
   (update w s = Some (Inr (s', w')) \<longrightarrow>
      (food_pos s' \<noteq> food_pos s \<longrightarrow> food_pos s' \<notin> set (snake_body s')) \<and>
      (\<forall>p. powerup_pos s' = Some p \<and> powerup_pos s \<noteq> Some p \<longrightarrow> p \<notin> set (snake_body s')))"
  using create_food_sound [of body r c r'] create_powerup_sound [of body r c r']
    create_food_returns [of r n body] create_powerup_returns [of r n body]
    init_session_food [of w s0 w0] update_food_moved [of w s s' w']
    update_powerup_new [of w s s' w']
  by blast

lemma example_spawn_update:
  "update (example_world\<lparr>rng := 10 ## 10 ## 7 ## 8 ## sconst 0, clock := sconst 21\<rparr>)
      (example_state\<lparr>food_pos := (0, 0)\<rparr>) =
     Some (Inr (example_state\<lparr>food_pos := (0, 0), snake_body := [(11, 10)],
                  powerup_pos := Some (10, 10), last_powerup_spawn := 21\<rparr>,
                example_world\<lparr>rng := 7 ## 8 ## sconst 0, clock := sconst 21\<rparr>))"
proof -
  have "create_powerup [(11, 10)] (10 ## 10 ## 7 ## 8 ## sconst 0) = Some ((10, 10), 7 ## 8 ## sconst 0)"
    by (subst create_powerup_draw) (simp add: draw_eq GRID_WIDTH_eq GRID_HEIGHT_eq)
  then show ?thesis
    by (simp add: update_def and_then_def advance_def powerup_collision_def powerup_expiry_def
      powerup_spawn_def time_time_def example_state_def example_world_def
      POWERUP_SPAWN_INTERVAL_def)
qed

text \<open>
  In the example the first drawn cell is on the grown snake and is passed over; the food
  goes to (3, 4). With the clock past the spawn interval a power-up appears at (10, 10),
  the cell the snake has just left.
\<close>

theorem placement_off_snake_witness:
  "create_food [(11, 10), (10, 10)] (rng example_world) = Some ((3, 4), sconst 0) \<and>
   ((3, 4) :: cell) \<notin> set [(11, 10), (10, 10)] \<and>
   update example_world example_state =
     Some (Inr (example_state\<lparr>snake_body := [(11, 10), (10, 10)], score := 1, food_pos := (3, 4)\<rparr>,
                example_world\<lparr>rng := sconst 0\<rparr>)) \<and>
   food_pos (example_state\<lparr>snake_body := [(11, 10), (10, 10)], score := 1, food_pos := (3, 4)\<rparr>)
     \<notin> set (snake_body (example_state\<lparr>snake_body := [(11, 10), (10, 10)], score := 1, food_pos := (3, 4)\<rparr>)) \<and>
   update (example_world\<lparr>rng := 10 ## 10 ## 7 ## 8 ## sconst 0, clock := sconst 21\<rparr>)
      (example_state\<lparr>food_pos := (0, 0)\<rparr>) =
     Some (Inr (example_state\<lparr>food_pos := (0, 0), snake_body := [(11, 10)],
                  powerup_pos := Some (10, 10), last_powerup_spawn := 21\<rparr>,
                example_world\<lparr>rng := 7 ## 8 ## sconst 0, clock := sconst 21\<rparr>)) \<and>
   ((10, 10) :: cell) \<notin> set [(11, 10)]"
proof -
  have moved: "food_pos (example_state\<lparr>snake_body := [(11, 10), (10, 10)], score := 1, food_pos := (3, 4)\<rparr>)
      \<noteq> food_pos example_state"
    by (simp add: example_state_def)
  have off: "food_pos (example_state\<lparr>snake_body := [(11, 10), (10, 10)], score := 1, food_pos := (3, 4)\<rparr>)
     \<notin> set (snake_body (example_state\<lparr>snake_body := [(11, 10), (10, 10)], score := 1, food_pos := (3, 4)\<rparr>))"
    using placement_off_snake [where w = example_world and s = example_state
        and s' = "example_state\<lparr>snake_body := [(11, 10), (10, 10)], score := 1, food_pos := (3, 4)\<rparr>"
        and w' = "example_world\<lparr>rng := sconst 0\<rparr>"]
      example_eat_update moved
    by blast
  then show ?thesis
    using example_create_food example_eat_update example_spawn_update by simp
qed

subsection \<open>The high score at game over\<close>









text \<open>
  Claim C4. When the file cannot be written, the tick that ends the game with a score
  above the high score does not come back to the loop: the \<^verbatim>\<open>IOError\<close> of
  \<^verbatim>\<open>save_high_score\<close> leaves \<^verbatim>\<open>game_loop\<close>, which has no handler for it, after the
  high score in memory has been set.
\<close>

theorem save_failure_crashes:
  "tick readonly_world wall_state = Some (Inl IOError)"
proof -
  have "update readonly_world wall_state =
     Some (Inr (wall_state\<lparr>snake_body := [(40, 15)]\<rparr>, readonly_world))"
    by (simp add: update_def and_then_def advance_def powerup_collision_def powerup_expiry_def
      powerup_spawn_def time_time_def wall_state_def example_state_def example_world_def
      restart_world_def readonly_world_def POWERUP_SPAWN_INTERVAL_def)
  moreover have "game_over_check readonly_world (wall_state\<lparr>snake_body := [(40, 15)]\<rparr>) =
     Some (Inl IOError)"
    by (simp add: game_over_check_def update_high_score_def save_high_score_def
        wall_state_def example_state_def readonly_world_def GRID_WIDTH_eq)
  ultimately show ?thesis
    by (simp add: tick_def and_then_def)
qed

subsection \<open>Pause\<close>

text \<open>
  Claim C9. The space key flips \<^verbatim>\<open>paused\<close> and nothing else. While the game is paused,
  any number of passes of the loop whose events hold neither a space key nor a closing
  of the window leave every variable of the game as it is, and take nothing from the
  random source, the clock or the file. A space key while paused clears \<^verbatim>\<open>paused\<close>,
  and the loop takes it: when after such passes a batch ends with the space key, that
  pass runs the tick on the state as it was frozen, with only \<^verbatim>\<open>paused\<close> cleared.
  The pass in which an unpaused game gets the space key already skips the tick.
\<close>

theorem pause_freezes:
  "handle_event (KEYDOWN K_SPACE) s = Continue (s\<lparr>paused := \<not> paused s\<rparr>) \<and>
   (paused s \<and> running s \<and>
    (\<forall>i<n. QUIT \<notin> set (events w !! i) \<and> KEYDOWN K_SPACE \<notin> set (events w !! i)) \<longrightarrow>
      frames n w s = Some (Inr (Continue (s, w\<lparr>events := sdrop n (events w)\<rparr>)))) \<and>
   (paused s \<longrightarrow> handle_event (KEYDOWN K_SPACE) s = Continue (s\<lparr>paused := False\<rparr>)) \<and>
   (paused s \<and> running s \<and>
    (\<forall>i<n. QUIT \<notin> set (events w !! i) \<and> KEYDOWN K_SPACE \<notin> set (events w !! i)) \<and>
    QUIT \<notin> set es \<and> KEYDOWN K_SPACE \<notin> set es \<and> events w !! n = es @ [KEYDOWN K_SPACE] \<longrightarrow>
      frames (Suc n) w s =
        tick (w\<lparr>events := sdrop (Suc n) (events w)\<rparr>) (s\<lparr>paused := False\<rparr>)) \<and>
   (\<not> paused s \<and> shd (events w) = [KEYDOWN K_SPACE] \<longrightarrow>
      frame w s = Some (Inr (Continue (s\<lparr>paused := True\<rparr>, w\<lparr>events := stl (events w)\<rparr>))))"
proof (intro conjI impI)
  show "handle_event (KEYDOWN K_SPACE) s = Continue (s\<lparr>paused := \<not> paused s\<rparr>)" by simp
  show "frames n w s = Some (Inr (Continue (s, w\<lparr>events := sdrop n (events w)\<rparr>)))"
    if "paused s \<and> running s \<and>
      (\<forall>i<n. QUIT \<notin> set (events w !! i) \<and> KEYDOWN K_SPACE \<notin> set (events w !! i))"
    using that frames_paused [of s n w] by blast
  show "handle_event (KEYDOWN K_SPACE) s = Continue (s\<lparr>paused := False\<rparr>)" if "paused s"
    using that by simp
  show "frames (Suc n) w s =
        tick (w\<lparr>events := sdrop (Suc n) (events w)\<rparr>) (s\<lparr>paused := False\<rparr>)"
    if "paused s \<and> running s \<and>
      (\<forall>i<n. QUIT \<notin> set (events w !! i) \<and> KEYDOWN K_SPACE \<notin> set (events w !! i)) \<and>
      QUIT \<notin> set es \<and> KEYDOWN K_SPACE \<notin> set es \<and> events w !! n = es @ [KEYDOWN K_SPACE]"
    using that frames_resume [of s n w es] by blast
  show "frame w s = Some (Inr (Continue (s\<lparr>paused := True\<rparr>, w\<lparr>events := stl (events w)\<rparr>)))"
    if "\<not> paused s \<and> shd (events w) = [KEYDOWN K_SPACE]"
    using that by (simp add: frame_pause)
qed

lemma example_resume_tick:
  "tick example_world two_cell_state =
     Some (Inr (Continue (two_cell_state\<lparr>snake_body := [(11, 10), (10, 10)]\<rparr>, example_world)))"
  by (simp add: tick_def update_def and_then_def advance_def powerup_collision_def
      powerup_expiry_def powerup_spawn_def time_time_def game_over_check_def
      two_cell_state_def example_state_def example_world_def
      POWERUP_SPAWN_INTERVAL_def GRID_WIDTH_eq GRID_HEIGHT_eq)

text \<open>
  The snake of two cells is paused by the space key. Two passes, one with an arrow key,
  change nothing. The third pass has a LEFT key, ignored as the game is still paused,
  and then the space key: the snake moves on to the right, from (10, 10) to (11, 10).
\<close>

theorem pause_freezes_witness:
  "handle_event (KEYDOWN K_SPACE) two_cell_state = Continue paused_state \<and>
   paused paused_state \<and> running paused_state \<and>
   frames (Suc (Suc 0)) resume_world paused_state =
     Some (Inr (Continue (paused_state,
        example_world\<lparr>events := [KEYDOWN K_LEFT, KEYDOWN K_SPACE] ## sconst []\<rparr>))) \<and>
   frames (Suc (Suc (Suc 0))) resume_world paused_state =
     Some (Inr (Continue (two_cell_state\<lparr>snake_body := [(11, 10), (10, 10)]\<rparr>, example_world)))"
proof -
  have p: "paused paused_state" "running paused_state" "\<not> paused two_cell_state"
    "paused_state\<lparr>paused := False\<rparr> = two_cell_state"
    "two_cell_state\<lparr>paused := \<not> paused two_cell_state\<rparr> = paused_state"
    by (simp_all add: paused_state_def two_cell_state_def example_state_def)
  have q: "\<forall>i<Suc (Suc 0). QUIT \<notin> set (events resume_world !! i) \<and>
      KEYDOWN K_SPACE \<notin> set (events resume_world !! i)"
    by (simp add: resume_world_def All_less_Suc)
  have e: "QUIT \<notin> set [KEYDOWN K_LEFT] \<and> KEYDOWN K_SPACE \<notin> set [KEYDOWN K_LEFT] \<and>
      events resume_world !! Suc (Suc 0) = [KEYDOWN K_LEFT] @ [KEYDOWN K_SPACE]"
    by (simp add: resume_world_def)
  have w2: "resume_world\<lparr>events := sdrop (Suc (Suc 0)) (events resume_world)\<rparr> =
      example_world\<lparr>events := [KEYDOWN K_LEFT, KEYDOWN K_SPACE] ## sconst []\<rparr>"
    and w3: "resume_world\<lparr>events := sdrop (Suc (Suc (Suc 0))) (events resume_world)\<rparr> = example_world"
    by (simp_all add: resume_world_def example_world_def)
  from pause_freezes [of paused_state "Suc (Suc 0)" resume_world "[KEYDOWN K_LEFT]"] p(1,2) q e
  have "frames (Suc (Suc 0)) resume_world paused_state =
      Some (Inr (Continue (paused_state, resume_world\<lparr>events := sdrop (Suc (Suc 0)) (events resume_world)\<rparr>)))"
    and "frames (Suc (Suc (Suc 0))) resume_world paused_state =
      tick (resume_world\<lparr>events := sdrop (Suc (Suc (Suc 0))) (events resume_world)\<rparr>)
        (paused_state\<lparr>paused := False\<rparr>)"
    by blast+
  then have "frames (Suc (Suc 0)) resume_world paused_state =
      Some (Inr (Continue (paused_state,
        example_world\<lparr>events := [KEYDOWN K_LEFT, KEYDOWN K_SPACE] ## sconst []\<rparr>)))"
    and "frames (Suc (Suc (Suc 0))) resume_world paused_state =
      Some (Inr (Continue (two_cell_state\<lparr>snake_body := [(11, 10), (10, 10)]\<rparr>, example_world)))"
    unfolding w2 w3 p(4) example_resume_tick by blast+
  moreover from pause_freezes [of two_cell_state 0 example_world "[]"] p(5)
  have "handle_event (KEYDOWN K_SPACE) two_cell_state = Continue paused_state"
    by metis
  ultimately show ?thesis using p(1,2) by blast
qed

end
